theory Spec2Isabelle
  imports Main "HOL-Library.Log_Nat" "HOL-Library.Multiset"
begin

section \<open>Data model of package azure\<close>

text \<open>
  Errors are values. The package creates its own errors with \<open>errors.New\<close> and
  hands on, unchanged, the errors of the SDK clients, of the pagers and of the UUID
  generator.
\<close>

datatype error = errors_New string | SDKError string

definition DataIntegrityError :: error where
  "DataIntegrityError = errors_New ''unexptected nil value returned''"

definition SubscriptionNotFound :: error where
  "SubscriptionNotFound = errors_New ''subscription not found''"

definition RoleNotFound :: error where
  "RoleNotFound = errors_New ''Role Eligibility Schedule not found''"

text \<open>
  The SDK structs, with the fields the package reads. Every field is a pointer in Go,
  so every field is an option here (\<open>None\<close> is \<open>nil\<close>).
  \<open>armsubscription.SubscriptionState\<close> is a string type.
\<close>

type_synonym subscriptionID = string

record Subscription =
  DisplayName :: "string option"
  SubscriptionID :: "string option"
  State :: "string option"

definition SubscriptionStateEnabled :: string where
  "SubscriptionStateEnabled = ''Enabled''"

record ExpandedPropertiesRoleDefinition =
  RoleDisplayName :: "string option"

record ExpandedProperties =
  RoleDefinition :: "ExpandedPropertiesRoleDefinition option"

record RoleEligibilityScheduleProperties =
  ExpandedProperties :: "ExpandedProperties option"
  RoleDefinitionID :: "string option"

record RoleEligibilitySchedule =
  ID :: "string option"
  Properties :: "RoleEligibilityScheduleProperties option"

datatype RequestType =
  RequestTypeAdminAssign | RequestTypeAdminExtend | RequestTypeAdminRemove
| RequestTypeAdminRenew | RequestTypeAdminUpdate | RequestTypeSelfActivate
| RequestTypeSelfDeactivate | RequestTypeSelfExtend | RequestTypeSelfRenew

datatype ExpirationType = TypeAfterDateTime | TypeAfterDuration | TypeNoExpiration

record ScheduleInfoExpiration =
  Type :: "ExpirationType option"
  Duration :: "string option"

record ScheduleInfo =
  StartDateTime :: "int option"
  Expiration :: "ScheduleInfoExpiration option"

record RoleAssignmentScheduleRequestProperties =
  PrincipalID :: "string option"
  RequestType :: "RequestType option"
  reqRoleDefinitionID :: "string option"
  Justification :: "string option"
  ScheduleInfo :: "ScheduleInfo option"
  LinkedRoleEligibilityScheduleID :: "string option"

record RoleAssignmentScheduleRequest =
  reqProperties :: "RoleAssignmentScheduleRequestProperties option"

text \<open>
  What the package does to the outside: a page fetch on one of the two pagers, a line
  written with \<open>log.Printf\<close>, the create call with its scope, its request name and
  its body.
\<close>

datatype event =
  SubscriptionsNextPage
| SchedulesNextPage string
| LogPrintf string
| Create string string RoleAssignmentScheduleRequest

text \<open>
  A Go map is an association list with distinct keys, in insertion order; a \<open>nil\<close>
  map is \<open>None\<close>. A lookup in a \<open>nil\<close> map finds nothing.
\<close>

type_synonym ('k, 'v) gomap = "('k \<times> 'v) list option"

definition lookup :: "('k, 'v) gomap \<Rightarrow> 'k \<Rightarrow> 'v option" where
  "lookup m k = (case m of None \<Rightarrow> None | Some al \<Rightarrow> map_of al k)"

text \<open>
  Go ranges over a map in an order the runtime chooses. The choice is a list of
  numbers: each one picks the next key among the keys not yet visited.
\<close>

fun pick_order :: "nat list \<Rightarrow> 'a list \<Rightarrow> 'a list" where
  "pick_order cs [] = []"
| "pick_order [] xs = xs"
| "pick_order (c # cs) xs =
     (let i = c mod length xs
      in xs ! i # pick_order cs (take i xs @ drop (Suc i) xs))"

text \<open>
  The session, and the world it talks to. A pager run is the pages it delivers in
  order, then either the end of the listing or a fetch that fails.
\<close>

record Session =
  timeout :: int
  principalID :: string

record Azure =
  NewSubscriptionsClientErr :: "error option"
  subscriptionPages :: "Subscription option list list"
  subscriptionFailure :: "error option"
  NewRoleEligibilitySchedulesClientErr :: "error option"
  schedulePages :: "string \<Rightarrow> RoleEligibilitySchedule option list list"
  scheduleFailure :: "string \<Rightarrow> error option"
  timeNow :: int
  NewUUID :: "error + string"
  NewRoleAssignmentScheduleRequestsClientErr :: "error option"
  CreateResult :: "string \<Rightarrow> string \<Rightarrow> RoleAssignmentScheduleRequest \<Rightarrow> error + string option"
  rangeOrder :: "nat list"

section \<open>Subscriptions\<close>

text \<open>The loop over the entries of one page (lines 62 to 76).\<close>

fun subscriptionsEntries ::
  "Subscription option list \<Rightarrow> (string \<times> subscriptionID) list
     \<Rightarrow> ((string \<times> subscriptionID) list \<times> error option) \<times> event list" where
  "subscriptionsEntries [] subs = ((subs, None), [])"
| "subscriptionsEntries (v # vs) subs =
     (case v of
        None \<Rightarrow> ((subs, Some DataIntegrityError), [])
      | Some s \<Rightarrow>
          (case (DisplayName s, SubscriptionID s, State s) of
             (Some name, Some sid, Some st) \<Rightarrow>
               if st \<noteq> SubscriptionStateEnabled then subscriptionsEntries vs subs
               else if map_of subs name \<noteq> None then
                 (case subscriptionsEntries vs subs of
                    (r, evs) \<Rightarrow>
                      (r, LogPrintf (''WARNING: duplicate subscription ignored: '' @ name) # evs))
               else subscriptionsEntries vs (subs @ [(name, sid)])
           | _ \<Rightarrow> ((subs, Some DataIntegrityError), [])))"

text \<open>The loop over the pages (lines 57 to 78).\<close>

fun subscriptionsPages ::
  "Subscription option list list \<Rightarrow> error option \<Rightarrow> (string \<times> subscriptionID) list
     \<Rightarrow> ((string \<times> subscriptionID) list \<times> error option) \<times> event list" where
  "subscriptionsPages [] failure subs =
     (case failure of
        None \<Rightarrow> ((subs, None), [])
      | Some e \<Rightarrow> ((subs, Some e), [SubscriptionsNextPage]))"
| "subscriptionsPages (p # ps) failure subs =
     (case subscriptionsEntries p subs of
        ((subs', Some e), evs) \<Rightarrow> ((subs', Some e), SubscriptionsNextPage # evs)
      | ((subs', None), evs) \<Rightarrow>
          (case subscriptionsPages ps failure subs' of
             (r, evs') \<Rightarrow> (r, SubscriptionsNextPage # evs @ evs')))"

definition Subscriptions ::
  "Azure \<Rightarrow> ((string, subscriptionID) gomap \<times> error option) \<times> event list" where
  "Subscriptions az =
     (case NewSubscriptionsClientErr az of
        Some e \<Rightarrow> ((None, Some e), [])
      | None \<Rightarrow>
          (case subscriptionsPages (subscriptionPages az) (subscriptionFailure az) [] of
             ((subs, err), evs) \<Rightarrow> ((Some subs, err), evs)))"

section \<open>roleEligibilitySchedules\<close>

text \<open>
  The display name read through \<open>v.Properties.ExpandedProperties.RoleDefinition.DisplayName\<close>;
  \<open>None\<close> when \<open>v\<close> or any pointer on the way is \<open>nil\<close> (the test of lines 128 to 131).
\<close>

definition scheduleRoleName :: "RoleEligibilitySchedule option \<Rightarrow> string option" where
  "scheduleRoleName v =
     (case v of
        None \<Rightarrow> None
      | Some r \<Rightarrow>
          (case Properties r of
             None \<Rightarrow> None
           | Some p \<Rightarrow>
               (case ExpandedProperties p of
                  None \<Rightarrow> None
                | Some ep \<Rightarrow>
                    (case RoleDefinition ep of
                       None \<Rightarrow> None
                     | Some rd \<Rightarrow> RoleDisplayName rd))))"

text \<open>The loop over the entries of one page (lines 127 to 140).\<close>

fun schedulesEntries ::
  "RoleEligibilitySchedule option list \<Rightarrow> (string \<times> RoleEligibilitySchedule option) list
     \<Rightarrow> ((string \<times> RoleEligibilitySchedule option) list \<times> error option) \<times> event list" where
  "schedulesEntries [] r = ((r, None), [])"
| "schedulesEntries (v # vs) r =
     (case scheduleRoleName v of
        None \<Rightarrow> ((r, Some DataIntegrityError), [])
      | Some name \<Rightarrow>
          if map_of r name \<noteq> None then
            (case schedulesEntries vs r of
               (res, evs) \<Rightarrow>
                 (res, LogPrintf (''WARNING: duplicate eligiblity ignored for role '' @ name) # evs))
          else schedulesEntries vs (r @ [(name, v)]))"

text \<open>The loop over the pages (lines 122 to 142).\<close>

fun schedulesPages ::
  "string \<Rightarrow> RoleEligibilitySchedule option list list \<Rightarrow> error option
     \<Rightarrow> (string \<times> RoleEligibilitySchedule option) list
     \<Rightarrow> ((string \<times> RoleEligibilitySchedule option) list \<times> error option) \<times> event list" where
  "schedulesPages scope [] failure r =
     (case failure of
        None \<Rightarrow> ((r, None), [])
      | Some e \<Rightarrow> ((r, Some e), [SchedulesNextPage scope]))"
| "schedulesPages scope (p # ps) failure r =
     (case schedulesEntries p r of
        ((r', Some e), evs) \<Rightarrow> ((r', Some e), SchedulesNextPage scope # evs)
      | ((r', None), evs) \<Rightarrow>
          (case schedulesPages scope ps failure r' of
             (res, evs') \<Rightarrow> (res, SchedulesNextPage scope # evs @ evs')))"

definition roleEligibilitySchedules ::
  "Azure \<Rightarrow> string
     \<Rightarrow> ((string, RoleEligibilitySchedule option) gomap \<times> error option) \<times> event list" where
  "roleEligibilitySchedules az scope =
     (case NewRoleEligibilitySchedulesClientErr az of
        Some e \<Rightarrow> ((None, Some e), [])
      | None \<Rightarrow>
          (case schedulesPages scope (schedulePages az scope) (scheduleFailure az scope) [] of
             ((r, err), evs) \<Rightarrow> ((Some r, err), evs)))"

section \<open>RolesForSubscription\<close>

text \<open>The keys of a map in the order the runtime ranges over it (lines 98 to 100).\<close>

definition rangeKeys :: "nat list \<Rightarrow> ('k \<times> 'v) list \<Rightarrow> 'k list" where
  "rangeKeys order al = pick_order order (map fst al)"

definition RolesForSubscription ::
  "Azure \<Rightarrow> string \<Rightarrow> (string list \<times> error option) \<times> event list" where
  "RolesForSubscription az subscriptionName =
     (case Subscriptions az of
        ((subs, Some e), evs1) \<Rightarrow> (([], Some e), evs1)
      | ((subs, None), evs1) \<Rightarrow>
          (case lookup subs subscriptionName of
             None \<Rightarrow> (([], Some SubscriptionNotFound), evs1)
           | Some sub \<Rightarrow>
               (case roleEligibilitySchedules az (''/subscriptions/'' @ sub) of
                  ((res, Some e), evs2) \<Rightarrow> (([], Some e), evs1 @ evs2)
                | ((res, None), evs2) \<Rightarrow>
                    ((case res of
                        None \<Rightarrow> []
                      | Some al \<Rightarrow> rangeKeys (rangeOrder az) al, None),
                     evs1 @ evs2))))"

section \<open>The duration in minutes\<close>

text \<open>
  A \<open>time.Duration\<close> is an \<open>int64\<close> of nanoseconds. Go's \<open>/\<close> and \<open>%\<close> on integers
  truncate toward zero.
\<close>

definition Minute :: int where
  "Minute = 60 * 1000000000"

definition quo :: "int \<Rightarrow> int \<Rightarrow> int" where
  "quo a b = sgn a * sgn b * (\<bar>a\<bar> div \<bar>b\<bar>)"

definition rem :: "int \<Rightarrow> int \<Rightarrow> int" where
  "rem a b = a - b * quo a b"

text \<open>
  A \<open>float64\<close> value is the rational number it stands for. \<open>float64\<close> rounds a rational
  to the nearest value with a 53 bit significand, a tie to the even significand, with the
  subnormal numbers below \<open>2 powi (- 1022)\<close>. Overflow to infinity is left out: no value
  computed here reaches \<open>2 ^ 1024\<close>.
\<close>

definition roundHalfEven :: "rat \<Rightarrow> int" where
  "roundHalfEven r =
     (let f = \<lfloor>r\<rfloor>; d = r - of_int f
      in if d < 1 / 2 then f else if 1 / 2 < d then f + 1 else if even f then f else f + 1)"

text \<open>The exponent \<open>e\<close> of a positive rational: \<open>2 powi e \<le> x < 2 powi (e + 1)\<close>.\<close>

definition ilog2 :: "rat \<Rightarrow> int" where
  "ilog2 x =
     (case quotient_of x of
        (p, q) \<Rightarrow>
          (let k = bitlen p - bitlen q
           in if 2 powi k \<le> x then k else k - 1))"

text \<open>
  The spacing of the \<open>float64\<close> values around a non-zero rational: \<open>2 powi (e - 52)\<close>
  for the exponent \<open>e\<close> of its magnitude, and the spacing of the subnormal numbers below
  the least exponent.
\<close>

definition ulp :: "rat \<Rightarrow> rat" where
  "ulp x = 2 powi (max (ilog2 \<bar>x\<bar>) (- 1022) - 52)"

definition float64 :: "rat \<Rightarrow> rat" where
  "float64 x = (if x = 0 then 0 else of_int (roundHalfEven (x / ulp x)) * ulp x)"

text \<open>
  \<open>Duration.Minutes\<close> of package time:
  \<^verbatim>\<open>min := d / Minute; nsec := d % Minute; return float64(min) + float64(nsec)/(60*1e9)\<close>
\<close>

definition Minutes :: "int \<Rightarrow> rat" where
  "Minutes d =
     (let min = quo d Minute; nsec = rem d Minute
      in float64 (float64 (of_int min)
                  + float64 (float64 (of_int nsec) / float64 (60 * 1000000000))))"

text \<open>The conversion \<open>int(f)\<close> of a \<open>float64\<close> drops the fraction.\<close>

definition truncate :: "rat \<Rightarrow> int" where
  "truncate x = (if 0 \<le> x then \<lfloor>x\<rfloor> else \<lceil>x\<rceil>)"

text \<open>The verb \<open>%d\<close> of \<open>fmt.Sprintf\<close>: decimal digits, a minus sign before a negative number.\<close>

fun natDigits :: "nat \<Rightarrow> string" where
  "natDigits n =
     (if n < 10 then [''0123456789'' ! n]
      else natDigits (n div 10) @ [''0123456789'' ! (n mod 10)])"

definition formatInt :: "int \<Rightarrow> string" where
  "formatInt n = (if n < 0 then ''-'' @ natDigits (nat (- n)) else natDigits (nat n))"

text \<open>Line 182: \<^verbatim>\<open>fmt.Sprintf("PT%dM", int(duration.Minutes()))\<close>.\<close>

definition expirationDuration :: "int \<Rightarrow> string" where
  "expirationDuration duration = ''PT'' @ formatInt (truncate (Minutes duration)) @ ''M''"

section \<open>ActiveRoleAssignment\<close>

text \<open>The test of lines 172 to 175.\<close>

definition nilFields :: "RoleEligibilitySchedule option \<Rightarrow> bool" where
  "nilFields re =
     (case re of
        None \<Rightarrow> True
      | Some r \<Rightarrow>
          ID r = None \<or>
          (case Properties r of
             None \<Rightarrow> True
           | Some p \<Rightarrow>
               (case ExpandedProperties p of
                  None \<Rightarrow> True
                | Some ep \<Rightarrow> RoleDefinition ep = None)
               \<or> RoleDefinitionID p = None))"

text \<open>
  The request of lines 179 to 198. It copies the pointers \<open>re.Properties.RoleDefinitionID\<close>
  and \<open>re.ID\<close>.
\<close>

definition buildRequest ::
  "Session \<Rightarrow> Azure \<Rightarrow> RoleEligibilitySchedule option \<Rightarrow> string \<Rightarrow> int
     \<Rightarrow> RoleAssignmentScheduleRequest" where
  "buildRequest s az re justifiction duration =
     \<lparr>reqProperties = Some
        \<lparr>PrincipalID = Some (principalID s),
         RequestType = Some RequestTypeSelfActivate,
         reqRoleDefinitionID = Option.bind (Option.bind re Properties) RoleDefinitionID,
         Justification = Some justifiction,
         ScheduleInfo = Some
           \<lparr>StartDateTime = Some (timeNow az),
            Expiration = Some
              \<lparr>Type = Some TypeAfterDuration,
               Duration = Some (expirationDuration duration)\<rparr>\<rparr>,
         LinkedRoleEligibilityScheduleID = Option.bind re ID\<rparr>\<rparr>"

text \<open>Lines 200 to 226: the request name, the client, the create call, the log line.\<close>

definition createRequest ::
  "Azure \<Rightarrow> string \<Rightarrow> RoleAssignmentScheduleRequest \<Rightarrow> error option \<times> event list" where
  "createRequest az scope req =
     (case NewUUID az of
        Inl e \<Rightarrow> (Some e, [])
      | Inr guid \<Rightarrow>
          (case NewRoleAssignmentScheduleRequestsClientErr az of
             Some e \<Rightarrow> (Some e, [])
           | None \<Rightarrow>
               (case CreateResult az scope guid req of
                  Inl e \<Rightarrow> (Some e, [Create scope guid req])
                | Inr resp \<Rightarrow>
                    (None,
                     Create scope guid req #
                       (case resp of
                          None \<Rightarrow> []
                        | Some b \<Rightarrow> [LogPrintf (b @ [CHR 0x0A])])))))"

definition ActiveRoleAssignment ::
  "Session \<Rightarrow> Azure \<Rightarrow> string \<Rightarrow> string \<Rightarrow> string \<Rightarrow> int \<Rightarrow> error option \<times> event list" where
  "ActiveRoleAssignment s az subscriptionName roleDisplayName justifiction duration =
     (case Subscriptions az of
        ((subs, Some e), evs1) \<Rightarrow> (Some e, evs1)
      | ((subs, None), evs1) \<Rightarrow>
          (case lookup subs subscriptionName of
             None \<Rightarrow> (Some SubscriptionNotFound, evs1)
           | Some subscriptionID \<Rightarrow>
               (case roleEligibilitySchedules az (''subscriptions/'' @ subscriptionID) of
                  ((res, Some e), evs2) \<Rightarrow> (Some e, evs1 @ evs2)
                | ((res, None), evs2) \<Rightarrow>
                    (case lookup res roleDisplayName of
                       None \<Rightarrow> (Some RoleNotFound, evs1 @ evs2)
                     | Some re \<Rightarrow>
                         if nilFields re then (Some DataIntegrityError, evs1 @ evs2)
                         else
                           (case createRequest az (''/subscriptions/'' @ subscriptionID)
                                   (buildRequest s az re justifiction duration) of
                              (err, evs3) \<Rightarrow> (err, evs1 @ evs2 @ evs3))))))"

section \<open>NewSession\<close>

definition defaultTimeout :: int where
  "defaultTimeout = 30 * 1000000000"

definition NewSession :: "error option \<Rightarrow> string \<Rightarrow> error + Session" where
  "NewSession credentialErr pid =
     (case credentialErr of
        Some e \<Rightarrow> Inl e
      | None \<Rightarrow> Inr \<lparr>timeout = defaultTimeout, principalID = pid\<rparr>)"

section \<open>Vocabulary of the properties\<close>

text \<open>The test of line 63 on an entry of the subscription listing.\<close>

definition nilSubscription :: "Subscription option \<Rightarrow> bool" where
  "nilSubscription v =
     (case v of
        None \<Rightarrow> True
      | Some s \<Rightarrow> DisplayName s = None \<or> SubscriptionID s = None \<or> State s = None)"

text \<open>An entry in the enabled state, and one that also carries a given display name.\<close>

definition enabledSubscription :: "Subscription option \<Rightarrow> bool" where
  "enabledSubscription v =
     (case v of None \<Rightarrow> False | Some s \<Rightarrow> State s = Some SubscriptionStateEnabled)"

definition enabledNamed :: "string \<Rightarrow> Subscription option \<Rightarrow> bool" where
  "enabledNamed name v =
     (case v of
        None \<Rightarrow> False
      | Some s \<Rightarrow> DisplayName s = Some name \<and> State s = Some SubscriptionStateEnabled)"

text \<open>The entries a listing reaches: those before the first one that fails the nil test.\<close>

definition reachedSubscriptions :: "Azure \<Rightarrow> Subscription option list" where
  "reachedSubscriptions az =
     takeWhile (\<lambda>v. \<not> nilSubscription v) (concat (subscriptionPages az))"

definition reachedSchedules :: "Azure \<Rightarrow> string \<Rightarrow> RoleEligibilitySchedule option list" where
  "reachedSchedules az scope =
     takeWhile (\<lambda>v. scheduleRoleName v \<noteq> None) (concat (schedulePages az scope))"

definition isCreate :: "event \<Rightarrow> bool" where
  "isCreate ev = (case ev of Create scope name req \<Rightarrow> True | _ \<Rightarrow> False)"

definition isSchedulesNextPage :: "event \<Rightarrow> bool" where
  "isSchedulesNextPage ev = (case ev of SchedulesNextPage scope \<Rightarrow> True | _ \<Rightarrow> False)"

definition isLogPrintf :: "event \<Rightarrow> bool" where
  "isLogPrintf ev = (case ev of LogPrintf msg \<Rightarrow> True | _ \<Rightarrow> False)"

text \<open>The number of pages of subscriptions a run fetched, or tried to fetch.\<close>

definition subscriptionFetches :: "event list \<Rightarrow> nat" where
  "subscriptionFetches evs = length (filter (\<lambda>ev. ev = SubscriptionsNextPage) evs)"

text \<open>The number of lines a run wrote with \<open>log.Printf\<close>.\<close>

definition logLines :: "event list \<Rightarrow> nat" where
  "logLines evs = length (filter isLogPrintf evs)"

section \<open>An example world\<close>

text \<open>
  Two pages of subscriptions with a disabled entry and a duplicate display name, and two
  pages of eligibility schedules with a duplicate role at the scope of \<open>sub-1\<close>.
\<close>

definition subscriptionEntry :: "string \<Rightarrow> string \<Rightarrow> string \<Rightarrow> Subscription option" where
  "subscriptionEntry name sid st =
     Some \<lparr>DisplayName = Some name, SubscriptionID = Some sid, State = Some st\<rparr>"

definition scheduleEntry :: "string \<Rightarrow> string \<Rightarrow> string \<Rightarrow> RoleEligibilitySchedule option" where
  "scheduleEntry sid role rid =
     Some \<lparr>ID = Some sid,
           Properties = Some
             \<lparr>ExpandedProperties = Some
                \<lparr>RoleDefinition = Some \<lparr>RoleDisplayName = Some role\<rparr>\<rparr>,
              RoleDefinitionID = Some rid\<rparr>\<rparr>"

definition exampleAzure :: Azure where
  "exampleAzure =
     \<lparr>NewSubscriptionsClientErr = None,
      subscriptionPages =
        [[subscriptionEntry ''Prod'' ''sub-1'' ''Enabled'',
          subscriptionEntry ''Old'' ''sub-0'' ''Disabled''],
         [subscriptionEntry ''Prod'' ''sub-2'' ''Enabled'',
          subscriptionEntry ''Dev'' ''sub-3'' ''Enabled'']],
      subscriptionFailure = None,
      NewRoleEligibilitySchedulesClientErr = None,
      schedulePages = (\<lambda>scope.
        if scope = ''subscriptions/sub-1'' \<or> scope = ''/subscriptions/sub-1'' then
          [[scheduleEntry ''sched-1'' ''Contributor'' ''role-c'',
            scheduleEntry ''sched-2'' ''Reader'' ''role-r''],
           [scheduleEntry ''sched-3'' ''Contributor'' ''role-c'']]
        else []),
      scheduleFailure = (\<lambda>scope. None),
      timeNow = 1700000000,
      NewUUID = Inr ''6ba7b810-9dad-11d1-80b4-00c04fd430c8'',
      NewRoleAssignmentScheduleRequestsClientErr = None,
      CreateResult = (\<lambda>scope name req. Inr (Some ''{}'')),
      rangeOrder = [1]\<rparr>"

text \<open>
  The listing of the example with, in its second page, a disabled entry that has no
  display name; and the listing of the example cut short by a fetch that fails.
\<close>

definition nilEntryAzure :: Azure where
  "nilEntryAzure =
     exampleAzure
       \<lparr>subscriptionPages :=
          [[subscriptionEntry ''Prod'' ''sub-1'' ''Enabled''],
           [subscriptionEntry ''Dev'' ''sub-3'' ''Enabled'',
            Some \<lparr>DisplayName = None, SubscriptionID = Some ''sub-9'', State = Some ''Disabled''\<rparr>,
            subscriptionEntry ''Late'' ''sub-4'' ''Enabled''],
           [subscriptionEntry ''Later'' ''sub-5'' ''Enabled'']]\<rparr>"

definition failingAzure :: Azure where
  "failingAzure =
     exampleAzure
       \<lparr>subscriptionPages := [[subscriptionEntry ''Prod'' ''sub-1'' ''Enabled'']],
        subscriptionFailure := Some (SDKError ''context deadline exceeded'')\<rparr>"

text \<open>A listing whose first entry named \<open>Prod\<close> is disabled and whose second is enabled.\<close>

definition disabledFirstAzure :: Azure where
  "disabledFirstAzure =
     exampleAzure
       \<lparr>subscriptionPages :=
          [[subscriptionEntry ''Prod'' ''sub-1'' ''Disabled'',
            subscriptionEntry ''Prod'' ''sub-2'' ''Enabled'']]\<rparr>"

text \<open>The example with a schedule for \<open>Reader\<close> that has no identifier.\<close>

definition nilScheduleAzure :: Azure where
  "nilScheduleAzure =
     exampleAzure
       \<lparr>schedulePages := (\<lambda>scope.
          [[Some \<lparr>ID = None,
                  Properties = Some
                    \<lparr>ExpandedProperties = Some
                       \<lparr>RoleDefinition = Some \<lparr>RoleDisplayName = Some ''Reader''\<rparr>\<rparr>,
                     RoleDefinitionID = Some ''role-r''\<rparr>\<rparr>]])\<rparr>"

definition exampleSession :: Session where
  "exampleSession = \<lparr>timeout = defaultTimeout, principalID = ''user-1''\<rparr>"

section \<open>The subscription listing: lemmas\<close>

lemma subscription_cases [case_names nil skipped enabled]:
  obtains "nilSubscription v"
  | s n i st where "v = Some s" "DisplayName s = Some n" "SubscriptionID s = Some i"
      "State s = Some st" "st \<noteq> SubscriptionStateEnabled"
  | s n i where "v = Some s" "DisplayName s = Some n" "SubscriptionID s = Some i"
      "State s = Some SubscriptionStateEnabled"
proof -
  have "nilSubscription v
      \<or> (\<exists>s n i st. v = Some s \<and> DisplayName s = Some n \<and> SubscriptionID s = Some i
            \<and> State s = Some st \<and> st \<noteq> SubscriptionStateEnabled)
      \<or> (\<exists>s n i. v = Some s \<and> DisplayName s = Some n \<and> SubscriptionID s = Some i
            \<and> State s = Some SubscriptionStateEnabled)"
    by (cases v) (auto simp: nilSubscription_def)
  then show thesis using that by blast
qed

lemma subscriptionsEntries_nil_head:
  "nilSubscription v \<Longrightarrow> subscriptionsEntries (v # vs) subs = ((subs, Some DataIntegrityError), [])"
  by (auto simp: nilSubscription_def split: option.splits)

lemma subscriptionsEntries_skipped:
  "v = Some s \<Longrightarrow> DisplayName s = Some n \<Longrightarrow> SubscriptionID s = Some i \<Longrightarrow> State s = Some st \<Longrightarrow>
   st \<noteq> SubscriptionStateEnabled \<Longrightarrow>
   subscriptionsEntries (v # vs) subs = subscriptionsEntries vs subs"
  by simp

lemma subscriptionsEntries_duplicate:
  "v = Some s \<Longrightarrow> DisplayName s = Some n \<Longrightarrow> SubscriptionID s = Some i \<Longrightarrow>
   State s = Some SubscriptionStateEnabled \<Longrightarrow> map_of subs n = Some j \<Longrightarrow>
   subscriptionsEntries (v # vs) subs =
     (fst (subscriptionsEntries vs subs),
      LogPrintf (''WARNING: duplicate subscription ignored: '' @ n) # snd (subscriptionsEntries vs subs))"
  by (simp split: prod.splits)

lemma subscriptionsEntries_fresh:
  "v = Some s \<Longrightarrow> DisplayName s = Some n \<Longrightarrow> SubscriptionID s = Some i \<Longrightarrow>
   State s = Some SubscriptionStateEnabled \<Longrightarrow> map_of subs n = None \<Longrightarrow>
   subscriptionsEntries (v # vs) subs = subscriptionsEntries vs (subs @ [(n, i)])"
  by simp

declare subscriptionsEntries.simps(2) [simp del]

lemma nilSubscription_Some:
  "DisplayName s = Some n \<Longrightarrow> SubscriptionID s = Some i \<Longrightarrow> State s = Some st \<Longrightarrow>
   \<not> nilSubscription (Some s)"
  by (simp add: nilSubscription_def)

lemma subscriptionsEntries_append:
  "fst (subscriptionsEntries (xs @ ys) subs) =
     (case fst (subscriptionsEntries xs subs) of
        (m, Some e) \<Rightarrow> (m, Some e)
      | (m, None) \<Rightarrow> fst (subscriptionsEntries ys m))"
proof (induction xs arbitrary: subs)
  case Nil
  then show ?case by simp
next
  case (Cons v xs)
  show ?case
  proof (cases v rule: subscription_cases)
    case nil
    then show ?thesis by (simp add: subscriptionsEntries_nil_head)
  next
    case (skipped s n i st)
    show ?thesis
      using Cons.IH by (simp add: subscriptionsEntries_skipped [OF skipped])
  next
    case (enabled s n i)
    show ?thesis
    proof (cases "map_of subs n")
      case None
      show ?thesis
        using Cons.IH by (simp add: subscriptionsEntries_fresh [OF enabled None])
    next
      case (Some j)
      show ?thesis
        using Cons.IH by (simp add: subscriptionsEntries_duplicate [OF enabled Some])
    qed
  qed
qed

lemma subscriptionsPages_Cons_fst:
  "fst (subscriptionsPages (p # ps) failure subs) =
     (case fst (subscriptionsEntries p subs) of
        (m, Some e) \<Rightarrow> (m, Some e)
      | (m, None) \<Rightarrow> fst (subscriptionsPages ps failure m))"
  by (simp split: prod.splits option.splits)

lemma subscriptionsPages_concat:
  "fst (subscriptionsPages ps failure subs) =
     (case fst (subscriptionsEntries (concat ps) subs) of
        (m, Some e) \<Rightarrow> (m, Some e)
      | (m, None) \<Rightarrow> (m, failure))"
proof (induction ps arbitrary: subs)
  case Nil
  then show ?case by (simp split: option.splits)
next
  case (Cons p ps)
  obtain m err where p: "fst (subscriptionsEntries p subs) = (m, err)"
    by (cases "fst (subscriptionsEntries p subs)")
  show ?case
    using Cons.IH [of m] p
    by (cases err)
       (simp_all add: subscriptionsPages_Cons_fst subscriptionsEntries_append
          del: subscriptionsPages.simps)
qed

lemma subscriptionsEntries_error:
  "snd (fst (subscriptionsEntries vs subs)) =
     (if \<forall>v \<in> set vs. \<not> nilSubscription v then None else Some DataIntegrityError)"
proof (induction vs arbitrary: subs)
  case Nil
  then show ?case by simp
next
  case (Cons v vs)
  show ?case
  proof (cases v rule: subscription_cases)
    case nil
    then show ?thesis by (simp add: subscriptionsEntries_nil_head)
  next
    case (skipped s n i st)
    have v: "\<not> nilSubscription v"
      using skipped by (simp add: nilSubscription_Some)
    show ?thesis
      using Cons.IH v by (simp add: subscriptionsEntries_skipped [OF skipped])
  next
    case (enabled s n i)
    have v: "\<not> nilSubscription v"
      using enabled by (simp add: nilSubscription_Some)
    show ?thesis
    proof (cases "map_of subs n")
      case None
      show ?thesis
        using Cons.IH v by (simp add: subscriptionsEntries_fresh [OF enabled None])
    next
      case (Some j)
      show ?thesis
        using Cons.IH v by (simp add: subscriptionsEntries_duplicate [OF enabled Some])
    qed
  qed
qed

lemma subscriptionsEntries_takeWhile:
  "fst (fst (subscriptionsEntries vs subs)) =
     fst (fst (subscriptionsEntries (takeWhile (\<lambda>v. \<not> nilSubscription v) vs) subs))"
proof (induction vs arbitrary: subs)
  case Nil
  then show ?case by simp
next
  case (Cons v vs)
  show ?case
  proof (cases v rule: subscription_cases)
    case nil
    then show ?thesis by (simp add: subscriptionsEntries_nil_head)
  next
    case (skipped s n i st)
    have v: "\<not> nilSubscription v"
      using skipped by (simp add: nilSubscription_Some)
    show ?thesis
      using Cons.IH v by (simp add: subscriptionsEntries_skipped [OF skipped])
  next
    case (enabled s n i)
    have v: "\<not> nilSubscription v"
      using enabled by (simp add: nilSubscription_Some)
    show ?thesis
    proof (cases "map_of subs n")
      case None
      show ?thesis
        using Cons.IH v by (simp add: subscriptionsEntries_fresh [OF enabled None])
    next
      case (Some j)
      show ?thesis
        using Cons.IH v by (simp add: subscriptionsEntries_duplicate [OF enabled Some])
    qed
  qed
qed

lemma subscriptionsEntries_lookup:
  "\<forall>v \<in> set vs. \<not> nilSubscription v \<Longrightarrow>
   map_of (fst (fst (subscriptionsEntries vs subs))) name =
     (case map_of subs name of
        Some i \<Rightarrow> Some i
      | None \<Rightarrow>
          (case List.find (enabledNamed name) vs of
             None \<Rightarrow> None
           | Some v \<Rightarrow> Option.bind v SubscriptionID))"
proof (induction vs arbitrary: subs)
  case Nil
  then show ?case by (simp split: option.splits)
next
  case (Cons v vs)
  from Cons.prems have rest: "\<forall>v \<in> set vs. \<not> nilSubscription v" and v: "\<not> nilSubscription v"
    by simp_all
  show ?case
  proof (cases v rule: subscription_cases)
    case nil
    with v show ?thesis by simp
  next
    case (skipped s n i st)
    have "\<not> enabledNamed name v"
      using skipped by (simp add: enabledNamed_def)
    then show ?thesis
      using Cons.IH [OF rest, of subs]
      by (simp add: subscriptionsEntries_skipped [OF skipped]
            cong: option.case_cong)
  next
    case (enabled s n i)
    show ?thesis
    proof (cases "map_of subs n")
      case None
      have en: "enabledNamed name v \<longleftrightarrow> name = n"
        using enabled by (auto simp: enabledNamed_def)
      have bind: "Option.bind v SubscriptionID = Some i"
        using enabled by simp
      show ?thesis
        unfolding subscriptionsEntries_fresh [OF enabled None]
        using en bind None Cons.IH [OF rest, of "subs @ [(n, i)]"]
        by (auto simp: map_add_def split: option.splits)
    next
      case (Some j)
      have en: "enabledNamed name v \<longleftrightarrow> name = n"
        using enabled by (auto simp: enabledNamed_def)
      show ?thesis
        unfolding subscriptionsEntries_duplicate [OF enabled Some]
        using en Some Cons.IH [OF rest, of subs]
        by (auto split: option.splits)
    qed
  qed
qed

lemma subscriptionsEntries_distinct:
  "distinct (map fst subs) \<Longrightarrow> distinct (map fst (fst (fst (subscriptionsEntries vs subs))))"
proof (induction vs arbitrary: subs)
  case Nil
  then show ?case by simp
next
  case (Cons v vs)
  show ?case
  proof (cases v rule: subscription_cases)
    case nil
    then show ?thesis using Cons.prems
      by (simp add: subscriptionsEntries_nil_head)
  next
    case (skipped s n i st)
    show ?thesis using Cons.IH [OF Cons.prems]
      by (simp add: subscriptionsEntries_skipped [OF skipped]
            cong: option.case_cong)
  next
    case (enabled s n i)
    show ?thesis
    proof (cases "map_of subs n")
      case None
      then have "distinct (map fst (subs @ [(n, i)]))"
        using Cons.prems by (simp add: map_of_eq_None_iff)
      from Cons.IH [OF this] show ?thesis
        by (simp add: subscriptionsEntries_fresh [OF enabled None])
    next
      case (Some j)
      show ?thesis using Cons.IH [OF Cons.prems]
        by (simp add: subscriptionsEntries_duplicate [OF enabled Some])
    qed
  qed
qed

lemma subscriptionsEntries_only_enabled:
  "(name, sid) \<in> set (fst (fst (subscriptionsEntries vs subs))) \<Longrightarrow>
   (name, sid) \<in> set subs \<or>
   (\<exists>s. Some s \<in> set vs \<and> DisplayName s = Some name \<and> SubscriptionID s = Some sid
        \<and> State s = Some SubscriptionStateEnabled)"
proof (induction vs arbitrary: subs)
  case Nil
  then show ?case by simp
next
  case (Cons v vs)
  show ?case
  proof (cases v rule: subscription_cases)
    case nil
    then show ?thesis using Cons.prems
      by (simp add: subscriptionsEntries_nil_head)
  next
    case (skipped s n i st)
    show ?thesis using Cons.IH [of subs] Cons.prems
      by (auto simp: subscriptionsEntries_skipped [OF skipped])
  next
    case (enabled s n i)
    show ?thesis
    proof (cases "map_of subs n")
      case None
      have "(name, sid) \<in> set (fst (fst (subscriptionsEntries vs (subs @ [(n, i)]))))"
        using Cons.prems
        by (simp add: subscriptionsEntries_fresh [OF enabled None])
      from Cons.IH [OF this] show ?thesis
        using enabled by auto
    next
      case (Some j)
      show ?thesis using Cons.IH [of subs] Cons.prems
        by (auto simp: subscriptionsEntries_duplicate [OF enabled Some])
    qed
  qed
qed

lemma subscriptionsEntries_events:
  "ev \<in> set (snd (subscriptionsEntries vs subs)) \<Longrightarrow> isLogPrintf ev"
proof (induction vs arbitrary: subs)
  case Nil
  then show ?case by simp
next
  case (Cons v vs)
  show ?case
  proof (cases v rule: subscription_cases)
    case nil
    then show ?thesis using Cons.prems by (simp add: subscriptionsEntries_nil_head)
  next
    case (skipped s n i st)
    show ?thesis using Cons.IH [of subs] Cons.prems
      by (simp add: subscriptionsEntries_skipped [OF skipped])
  next
    case (enabled s n i)
    show ?thesis
    proof (cases "map_of subs n")
      case None
      show ?thesis using Cons.IH [of "subs @ [(n, i)]"] Cons.prems
        by (simp add: subscriptionsEntries_fresh [OF enabled None])
    next
      case (Some j)
      show ?thesis using Cons.IH [of subs] Cons.prems
        by (auto simp: subscriptionsEntries_duplicate [OF enabled Some] isLogPrintf_def)
    qed
  qed
qed

lemma subscriptionsPages_Cons_snd:
  "snd (subscriptionsPages (p # ps) failure subs) =
     SubscriptionsNextPage # snd (subscriptionsEntries p subs) @
       (case fst (subscriptionsEntries p subs) of
          (m, Some e) \<Rightarrow> []
        | (m, None) \<Rightarrow> snd (subscriptionsPages ps failure m))"
  by (simp split: prod.splits option.splits)

lemma subscriptionsPages_events:
  "ev \<in> set (snd (subscriptionsPages ps failure subs)) \<Longrightarrow>
   ev = SubscriptionsNextPage \<or> isLogPrintf ev"
proof (induction ps arbitrary: subs)
  case Nil
  then show ?case by (simp split: option.splits)
next
  case (Cons p ps)
  obtain m err where p: "fst (subscriptionsEntries p subs) = (m, err)"
    by (cases "fst (subscriptionsEntries p subs)")
  show ?case
    using Cons.prems Cons.IH [of m] p subscriptionsEntries_events [of ev p subs]
    by (cases err) (auto simp: subscriptionsPages_Cons_snd simp del: subscriptionsPages.simps)
qed

lemma Subscriptions_events:
  "ev \<in> set (snd (Subscriptions az)) \<Longrightarrow> ev = SubscriptionsNextPage \<or> isLogPrintf ev"
  using subscriptionsPages_events [of ev "subscriptionPages az" "subscriptionFailure az" "[]"]
  by (auto simp: Subscriptions_def split: option.splits prod.splits)

lemma Subscriptions_fst:
  "NewSubscriptionsClientErr az = None \<Longrightarrow>
   fst (Subscriptions az) =
     (Some (fst (fst (subscriptionsEntries (reachedSubscriptions az) []))),
      if \<forall>v \<in> set (concat (subscriptionPages az)). \<not> nilSubscription v
      then subscriptionFailure az else Some DataIntegrityError)"
proof -
  assume client: "NewSubscriptionsClientErr az = None"
  obtain m err where r: "fst (subscriptionsEntries (concat (subscriptionPages az)) []) = (m, err)"
    by (cases "fst (subscriptionsEntries (concat (subscriptionPages az)) [])")
  have m: "m = fst (fst (subscriptionsEntries (reachedSubscriptions az) []))"
    using r subscriptionsEntries_takeWhile [of "concat (subscriptionPages az)" "[]"]
    by (simp add: reachedSubscriptions_def)
  have err: "err = (if \<forall>v \<in> set (concat (subscriptionPages az)). \<not> nilSubscription v
                    then None else Some DataIntegrityError)"
    using r subscriptionsEntries_error [of "concat (subscriptionPages az)" "[]"] by simp
  have "fst (subscriptionsPages (subscriptionPages az) (subscriptionFailure az) []) =
        (case (m, err) of (m, Some e) \<Rightarrow> (m, Some e) | (m, None) \<Rightarrow> (m, subscriptionFailure az))"
    using subscriptionsPages_concat [of "subscriptionPages az" "subscriptionFailure az" "[]"] r
    by simp
  then show ?thesis
    using client m err
    by (auto simp: Subscriptions_def split: prod.splits option.splits if_splits)
qed

section \<open>The example world, evaluated\<close>

lemma exampleAzure_Subscriptions:
  "Subscriptions exampleAzure =
     ((Some [(''Prod'', ''sub-1''), (''Dev'', ''sub-3'')], None),
      [SubscriptionsNextPage, SubscriptionsNextPage,
       LogPrintf ''WARNING: duplicate subscription ignored: Prod''])"
  by (simp add: Subscriptions_def exampleAzure_def subscriptionEntry_def
        SubscriptionStateEnabled_def subscriptionsEntries.simps(2))

section \<open>Subscriptions keeps enabled entries only\<close>

text \<open>
  C1. Whatever the pages of the listing are, and whether the call ends with an error or
  not, every display name that the mapping returned by \<open>Subscriptions\<close> resolves, with the
  identifier it resolves to, comes from an entry of the listing whose state is
  \<open>Enabled\<close>. An entry in another state contributes nothing to the mapping.
\<close>

theorem Subscriptions_only_enabled:
  assumes "lookup (fst (fst (Subscriptions az))) name = Some sid"
  shows "\<exists>s. Some s \<in> set (concat (subscriptionPages az)) \<and> DisplayName s = Some name
            \<and> SubscriptionID s = Some sid \<and> State s = Some SubscriptionStateEnabled"
proof (cases "NewSubscriptionsClientErr az")
  case (Some e)
  then show ?thesis using assms by (simp add: Subscriptions_def lookup_def)
next
  case None
  have "(name, sid) \<in> set (fst (fst (subscriptionsEntries (reachedSubscriptions az) [])))"
    using assms Subscriptions_fst [OF None] by (simp add: lookup_def map_of_SomeD)
  from subscriptionsEntries_only_enabled [OF this]
  obtain s where s: "Some s \<in> set (reachedSubscriptions az)" "DisplayName s = Some name"
      "SubscriptionID s = Some sid" "State s = Some SubscriptionStateEnabled"
    by auto
  from s(1) have "Some s \<in> set (concat (subscriptionPages az))"
    unfolding reachedSubscriptions_def by (rule set_takeWhileD [THEN conjunct1])
  with s show ?thesis by blast
qed

theorem Subscriptions_only_enabled_witness:
  "lookup (fst (fst (Subscriptions exampleAzure))) ''Prod'' = Some ''sub-1'' \<and>
   (\<exists>s. Some s \<in> set (concat (subscriptionPages exampleAzure)) \<and> DisplayName s = Some ''Prod''
        \<and> SubscriptionID s = Some ''sub-1'' \<and> State s = Some SubscriptionStateEnabled)"
proof -
  have h: "lookup (fst (fst (Subscriptions exampleAzure))) ''Prod'' = Some ''sub-1''"
    by (simp add: exampleAzure_Subscriptions lookup_def)
  show ?thesis
    using h Subscriptions_only_enabled [OF h] by simp
qed

section \<open>Where the subscription listing stops\<close>

lemma subscriptionFetches_log:
  "\<forall>ev \<in> set evs. isLogPrintf ev \<Longrightarrow> subscriptionFetches evs = 0"
  by (induction evs) (auto simp: subscriptionFetches_def isLogPrintf_def)

lemma subscriptionFetches_entries:
  "subscriptionFetches (snd (subscriptionsEntries vs subs)) = 0"
  by (rule subscriptionFetches_log) (simp add: subscriptionsEntries_events)

lemma subscriptionFetches_simps:
  "subscriptionFetches [] = 0"
  "subscriptionFetches (SubscriptionsNextPage # evs) = Suc (subscriptionFetches evs)"
  "subscriptionFetches (evs @ evs') = subscriptionFetches evs + subscriptionFetches evs'"
  by (simp_all add: subscriptionFetches_def)

lemma subscriptionsPages_fetches_nil:
  assumes "\<forall>x \<in> set (concat before). \<not> nilSubscription x"
    and "v \<in> set p" and "nilSubscription v"
  shows "subscriptionFetches (snd (subscriptionsPages (before @ p # after) failure subs)) =
           Suc (length before)"
  using assms(1)
proof (induction before arbitrary: subs)
  case Nil
  obtain m err where r: "fst (subscriptionsEntries p subs) = (m, err)"
    by (cases "fst (subscriptionsEntries p subs)")
  have "err = Some DataIntegrityError"
    using r subscriptionsEntries_error [of p subs] assms(2,3) by auto
  then show ?case
    using r by (simp add: subscriptionsPages_Cons_snd subscriptionFetches_simps
          subscriptionFetches_entries del: subscriptionsPages.simps)
next
  case (Cons q before)
  obtain m err where r: "fst (subscriptionsEntries q subs) = (m, err)"
    by (cases "fst (subscriptionsEntries q subs)")
  have "err = None"
    using r subscriptionsEntries_error [of q subs] Cons.prems by auto
  then show ?case
    using r Cons.IH [of m] Cons.prems
    by (simp add: subscriptionsPages_Cons_snd subscriptionFetches_simps
          subscriptionFetches_entries del: subscriptionsPages.simps)
qed

lemma subscriptionsPages_fetches_all:
  assumes "\<forall>x \<in> set (concat ps). \<not> nilSubscription x"
  shows "subscriptionFetches (snd (subscriptionsPages ps failure subs)) =
           (case failure of None \<Rightarrow> length ps | Some e \<Rightarrow> Suc (length ps))"
  using assms
proof (induction ps arbitrary: subs)
  case Nil
  then show ?case by (simp add: subscriptionFetches_simps split: option.splits)
next
  case (Cons q ps)
  obtain m err where r: "fst (subscriptionsEntries q subs) = (m, err)"
    by (cases "fst (subscriptionsEntries q subs)")
  have "err = None"
    using r subscriptionsEntries_error [of q subs] Cons.prems by auto
  then show ?case
    using r Cons.IH [of m] Cons.prems
    by (simp add: subscriptionsPages_Cons_snd subscriptionFetches_simps
          subscriptionFetches_entries del: subscriptionsPages.simps split: option.splits)
qed

lemma Subscriptions_snd:
  "NewSubscriptionsClientErr az = None \<Longrightarrow>
   snd (Subscriptions az) =
     snd (subscriptionsPages (subscriptionPages az) (subscriptionFailure az) [])"
  by (simp add: Subscriptions_def split: prod.splits)

lemma Subscriptions_stops_at_nil:
  assumes client: "NewSubscriptionsClientErr az = None"
    and pages: "subscriptionPages az = before @ (good @ v # rest) # after"
    and good: "\<forall>x \<in> set (concat before @ good). \<not> nilSubscription x"
    and bad: "nilSubscription v"
  shows "fst (Subscriptions az) =
           (Some (fst (fst (subscriptionsEntries (concat before @ good) []))),
            Some DataIntegrityError)"
    and "subscriptionFetches (snd (Subscriptions az)) = Suc (length before)"
proof -
  have "concat (subscriptionPages az) = (concat before @ good) @ v # (rest @ concat after)"
    using pages by simp
  then have reached: "reachedSubscriptions az = concat before @ good"
    unfolding reachedSubscriptions_def using good bad
    by (simp only: takeWhile_tail [of "\<lambda>v. \<not> nilSubscription v"] not_not
          takeWhile_eq_all_conv [THEN iffD2] simp_thms)
  have "v \<in> set (concat (subscriptionPages az))"
    using pages by simp
  then show "fst (Subscriptions az) =
           (Some (fst (fst (subscriptionsEntries (concat before @ good) []))),
            Some DataIntegrityError)"
    using Subscriptions_fst [OF client] reached bad by auto
  have "subscriptionFetches
          (snd (subscriptionsPages (before @ (good @ v # rest) # after)
             (subscriptionFailure az) [])) = Suc (length before)"
    using good bad by (intro subscriptionsPages_fetches_nil [where v = v]) auto
  then show "subscriptionFetches (snd (Subscriptions az)) = Suc (length before)"
    using pages by (simp add: Subscriptions_snd [OF client])
qed

lemma nilEntryAzure_Subscriptions:
  "Subscriptions nilEntryAzure =
     ((Some [(''Prod'', ''sub-1''), (''Dev'', ''sub-3'')], Some DataIntegrityError),
      [SubscriptionsNextPage, SubscriptionsNextPage])"
  by (simp add: Subscriptions_def nilEntryAzure_def exampleAzure_def subscriptionEntry_def
        SubscriptionStateEnabled_def subscriptionsEntries.simps(2))

lemma failingAzure_Subscriptions:
  "Subscriptions failingAzure =
     ((Some [(''Prod'', ''sub-1'')], Some (SDKError ''context deadline exceeded'')),
      [SubscriptionsNextPage, SubscriptionsNextPage])"
  by (simp add: Subscriptions_def failingAzure_def exampleAzure_def subscriptionEntry_def
        SubscriptionStateEnabled_def subscriptionsEntries.simps(2))

section \<open>A nil field or a failed fetch ends the listing with the partial mapping\<close>

text \<open>
  C5. When the client is created and the listing delivers an entry that is \<open>nil\<close> or has
  a \<open>nil\<close> display name, subscription identifier or state, \<open>Subscriptions\<close> returns
  \<open>DataIntegrityError\<close> together with the mapping built from the entries before the
  first such entry, and fetches no page after the page that holds it. When every entry passes the
  test and a fetch fails after the pages delivered, it returns the error of the fetch
  together with the mapping built from all the entries delivered.
\<close>

theorem Subscriptions_partial_map_with_error:
  assumes client: "NewSubscriptionsClientErr az = None"
  shows "((\<exists>x \<in> set (concat (subscriptionPages az)). nilSubscription x) \<longrightarrow>
          fst (Subscriptions az) =
            (Some (fst (fst (subscriptionsEntries (reachedSubscriptions az) []))),
             Some DataIntegrityError))
       \<and> (subscriptionPages az = before @ (good @ v # rest) # after
            \<and> (\<forall>x \<in> set (concat before @ good). \<not> nilSubscription x) \<and> nilSubscription v \<longrightarrow>
          fst (Subscriptions az) =
            (Some (fst (fst (subscriptionsEntries (concat before @ good) []))),
             Some DataIntegrityError)
          \<and> subscriptionFetches (snd (Subscriptions az)) = Suc (length before))
       \<and> ((\<forall>x \<in> set (concat (subscriptionPages az)). \<not> nilSubscription x)
            \<and> subscriptionFailure az = Some e \<longrightarrow>
          fst (Subscriptions az) =
            (Some (fst (fst (subscriptionsEntries (concat (subscriptionPages az)) []))), Some e)
          \<and> subscriptionFetches (snd (Subscriptions az)) = Suc (length (subscriptionPages az)))"
proof (intro conjI impI)
  assume "\<exists>x \<in> set (concat (subscriptionPages az)). nilSubscription x"
  then show "fst (Subscriptions az) =
      (Some (fst (fst (subscriptionsEntries (reachedSubscriptions az) []))),
       Some DataIntegrityError)"
    using Subscriptions_fst [OF client] by auto
next
  assume h: "subscriptionPages az = before @ (good @ v # rest) # after
      \<and> (\<forall>x \<in> set (concat before @ good). \<not> nilSubscription x) \<and> nilSubscription v"
  then show "fst (Subscriptions az) =
      (Some (fst (fst (subscriptionsEntries (concat before @ good) []))), Some DataIntegrityError)"
    using Subscriptions_stops_at_nil(1) [OF client] by blast
  from h show "subscriptionFetches (snd (Subscriptions az)) = Suc (length before)"
    using Subscriptions_stops_at_nil(2) [OF client] by blast
next
  assume h: "(\<forall>x \<in> set (concat (subscriptionPages az)). \<not> nilSubscription x)
      \<and> subscriptionFailure az = Some e"
  then have "reachedSubscriptions az = concat (subscriptionPages az)"
    by (simp add: reachedSubscriptions_def)
  then show "fst (Subscriptions az) =
      (Some (fst (fst (subscriptionsEntries (concat (subscriptionPages az)) []))), Some e)"
    using Subscriptions_fst [OF client] h by simp
  from h show "subscriptionFetches (snd (Subscriptions az)) = Suc (length (subscriptionPages az))"
    using subscriptionsPages_fetches_all [of "subscriptionPages az" "subscriptionFailure az" "[]"]
    by (simp add: Subscriptions_snd [OF client])
qed

theorem Subscriptions_partial_map_with_error_witness:
  "fst (Subscriptions nilEntryAzure) =
     (Some [(''Prod'', ''sub-1''), (''Dev'', ''sub-3'')], Some DataIntegrityError)
   \<and> subscriptionFetches (snd (Subscriptions nilEntryAzure)) = 2
   \<and> fst (Subscriptions failingAzure) =
     (Some [(''Prod'', ''sub-1'')], Some (SDKError ''context deadline exceeded''))
   \<and> subscriptionFetches (snd (Subscriptions failingAzure)) = 2"
proof -
  have c1: "NewSubscriptionsClientErr nilEntryAzure = None"
    by (simp add: nilEntryAzure_def exampleAzure_def)
  have c2: "NewSubscriptionsClientErr failingAzure = None"
    by (simp add: failingAzure_def exampleAzure_def)
  have p1: "subscriptionPages nilEntryAzure =
      [[subscriptionEntry ''Prod'' ''sub-1'' ''Enabled'']] @
      ([subscriptionEntry ''Dev'' ''sub-3'' ''Enabled''] @
        Some \<lparr>DisplayName = None, SubscriptionID = Some ''sub-9'', State = Some ''Disabled''\<rparr> #
        [subscriptionEntry ''Late'' ''sub-4'' ''Enabled'']) #
      [[subscriptionEntry ''Later'' ''sub-5'' ''Enabled'']]"
    by (simp add: nilEntryAzure_def)
  have g1: "\<forall>x \<in> set (concat [[subscriptionEntry ''Prod'' ''sub-1'' ''Enabled'']] @
      [subscriptionEntry ''Dev'' ''sub-3'' ''Enabled'']). \<not> nilSubscription x"
    by (simp add: nilSubscription_def subscriptionEntry_def)
  have n1: "nilSubscription
      (Some \<lparr>DisplayName = None, SubscriptionID = Some ''sub-9'', State = Some ''Disabled''\<rparr>)"
    by (simp add: nilSubscription_def)
  have g2: "\<forall>x \<in> set (concat (subscriptionPages failingAzure)). \<not> nilSubscription x"
    by (simp add: failingAzure_def nilSubscription_def subscriptionEntry_def)
  have f2: "subscriptionFailure failingAzure = Some (SDKError ''context deadline exceeded'')"
    by (simp add: failingAzure_def)
  note a = Subscriptions_partial_map_with_error [OF c1, THEN conjunct2, THEN conjunct1,
      rule_format, OF conjI [OF p1 conjI [OF g1 n1]]]
  note b = Subscriptions_partial_map_with_error [OF c2, THEN conjunct2, THEN conjunct2,
      rule_format, OF conjI [OF g2 f2]]
  show ?thesis
    using a b
    by (simp add: nilEntryAzure_Subscriptions failingAzure_Subscriptions
          subscriptionFetches_def)
qed

section \<open>The nil test comes before the state filter\<close>

text \<open>
  C10. An entry that is not in the \<open>Enabled\<close> state and has a \<open>nil\<close> display name,
  subscription identifier or state is not skipped as a disabled entry: when the listing
  reaches it, \<open>Subscriptions\<close> ends with \<open>DataIntegrityError\<close> and the mapping built
  so far.
\<close>

theorem nil_check_before_state_filter:
  assumes client: "NewSubscriptionsClientErr az = None"
    and pages: "subscriptionPages az = before @ (good @ Some s # rest) # after"
    and good: "\<forall>x \<in> set (concat before @ good). \<not> nilSubscription x"
    and state: "State s \<noteq> Some SubscriptionStateEnabled"
    and missing: "DisplayName s = None \<or> SubscriptionID s = None \<or> State s = None"
  shows "fst (Subscriptions az) =
           (Some (fst (fst (subscriptionsEntries (concat before @ good) []))),
            Some DataIntegrityError)"
proof -
  have "nilSubscription (Some s)"
    using missing by (simp add: nilSubscription_def)
  then show ?thesis
    by (rule Subscriptions_stops_at_nil(1) [OF client pages good])
qed

theorem nil_check_before_state_filter_witness:
  "fst (Subscriptions nilEntryAzure) =
     (Some [(''Prod'', ''sub-1''), (''Dev'', ''sub-3'')], Some DataIntegrityError)"
proof -
  have c1: "NewSubscriptionsClientErr nilEntryAzure = None"
    by (simp add: nilEntryAzure_def exampleAzure_def)
  have p1: "subscriptionPages nilEntryAzure =
      [[subscriptionEntry ''Prod'' ''sub-1'' ''Enabled'']] @
      ([subscriptionEntry ''Dev'' ''sub-3'' ''Enabled''] @
        Some \<lparr>DisplayName = None, SubscriptionID = Some ''sub-9'', State = Some ''Disabled''\<rparr> #
        [subscriptionEntry ''Late'' ''sub-4'' ''Enabled'']) #
      [[subscriptionEntry ''Later'' ''sub-5'' ''Enabled'']]"
    by (simp add: nilEntryAzure_def)
  have g1: "\<forall>x \<in> set (concat [[subscriptionEntry ''Prod'' ''sub-1'' ''Enabled'']] @
      [subscriptionEntry ''Dev'' ''sub-3'' ''Enabled'']). \<not> nilSubscription x"
    by (simp add: nilSubscription_def subscriptionEntry_def)
  have st: "State \<lparr>DisplayName = None, SubscriptionID = Some ''sub-9'', State = Some ''Disabled''\<rparr>
      \<noteq> Some SubscriptionStateEnabled"
    by (simp add: SubscriptionStateEnabled_def)
  have mi: "DisplayName \<lparr>DisplayName = None, SubscriptionID = Some ''sub-9'', State = Some ''Disabled''\<rparr> = None
      \<or> SubscriptionID \<lparr>DisplayName = None, SubscriptionID = Some ''sub-9'', State = Some ''Disabled''\<rparr> = None
      \<or> State \<lparr>DisplayName = None, SubscriptionID = Some ''sub-9'', State = Some ''Disabled''\<rparr> = None"
    by simp
  show ?thesis
    using nil_check_before_state_filter [OF c1 p1 g1 st mi]
    by (simp add: subscriptionEntry_def SubscriptionStateEnabled_def subscriptionsEntries.simps(2))
qed

section \<open>The schedule listing: lemmas\<close>

lemma schedulesEntries_nil_head:
  "scheduleRoleName v = None \<Longrightarrow>
   schedulesEntries (v # vs) r = ((r, Some DataIntegrityError), [])"
  by simp

lemma schedulesEntries_duplicate:
  "scheduleRoleName v = Some n \<Longrightarrow> map_of r n = Some w \<Longrightarrow>
   schedulesEntries (v # vs) r =
     (fst (schedulesEntries vs r),
      LogPrintf (''WARNING: duplicate eligiblity ignored for role '' @ n) #
        snd (schedulesEntries vs r))"
  by (simp split: prod.splits)

lemma schedulesEntries_fresh:
  "scheduleRoleName v = Some n \<Longrightarrow> map_of r n = None \<Longrightarrow>
   schedulesEntries (v # vs) r = schedulesEntries vs (r @ [(n, v)])"
  by simp

declare schedulesEntries.simps(2) [simp del]

lemma schedule_cases [case_names nil duplicate fresh]:
  fixes r :: "(string \<times> RoleEligibilitySchedule option) list"
  obtains "scheduleRoleName v = None"
  | n w where "scheduleRoleName v = Some n" "map_of r n = Some w"
  | n where "scheduleRoleName v = Some n" "map_of r n = None"
  by (cases "scheduleRoleName v"; cases "map_of r (the (scheduleRoleName v))") auto

lemma schedulesEntries_append:
  "fst (schedulesEntries (xs @ ys) r) =
     (case fst (schedulesEntries xs r) of
        (m, Some e) \<Rightarrow> (m, Some e)
      | (m, None) \<Rightarrow> fst (schedulesEntries ys m))"
proof (induction xs arbitrary: r)
  case Nil
  then show ?case by simp
next
  case (Cons v xs)
  show ?case
  proof (cases rule: schedule_cases [where v = v and r = r])
    case nil
    then show ?thesis by (simp add: schedulesEntries_nil_head)
  next
    case (duplicate n w)
    show ?thesis using Cons.IH by (simp add: schedulesEntries_duplicate [OF duplicate])
  next
    case (fresh n)
    show ?thesis using Cons.IH by (simp add: schedulesEntries_fresh [OF fresh])
  qed
qed

lemma schedulesPages_Cons_fst:
  "fst (schedulesPages scope (p # ps) failure r) =
     (case fst (schedulesEntries p r) of
        (m, Some e) \<Rightarrow> (m, Some e)
      | (m, None) \<Rightarrow> fst (schedulesPages scope ps failure m))"
  by (simp split: prod.splits option.splits)

lemma schedulesPages_Cons_snd:
  "snd (schedulesPages scope (p # ps) failure r) =
     SchedulesNextPage scope # snd (schedulesEntries p r) @
       (case fst (schedulesEntries p r) of
          (m, Some e) \<Rightarrow> []
        | (m, None) \<Rightarrow> snd (schedulesPages scope ps failure m))"
  by (simp split: prod.splits option.splits)

lemma schedulesPages_concat:
  "fst (schedulesPages scope ps failure r) =
     (case fst (schedulesEntries (concat ps) r) of
        (m, Some e) \<Rightarrow> (m, Some e)
      | (m, None) \<Rightarrow> (m, failure))"
proof (induction ps arbitrary: r)
  case Nil
  then show ?case by (simp split: option.splits)
next
  case (Cons p ps)
  obtain m err where p: "fst (schedulesEntries p r) = (m, err)"
    by (cases "fst (schedulesEntries p r)")
  show ?case
    using Cons.IH [of m] p
    by (cases err)
       (simp_all add: schedulesPages_Cons_fst schedulesEntries_append
          del: schedulesPages.simps)
qed

lemma schedulesEntries_error:
  "snd (fst (schedulesEntries vs r)) =
     (if \<forall>v \<in> set vs. scheduleRoleName v \<noteq> None then None else Some DataIntegrityError)"
proof (induction vs arbitrary: r)
  case Nil
  then show ?case by simp
next
  case (Cons v vs)
  show ?case
  proof (cases rule: schedule_cases [where v = v and r = r])
    case nil
    then show ?thesis by (simp add: schedulesEntries_nil_head)
  next
    case (duplicate n w)
    show ?thesis using Cons.IH duplicate(1)
      by (simp add: schedulesEntries_duplicate [OF duplicate])
  next
    case (fresh n)
    show ?thesis using Cons.IH fresh(1) by (simp add: schedulesEntries_fresh [OF fresh])
  qed
qed

lemma schedulesEntries_takeWhile:
  "fst (fst (schedulesEntries vs r)) =
     fst (fst (schedulesEntries (takeWhile (\<lambda>v. scheduleRoleName v \<noteq> None) vs) r))"
proof (induction vs arbitrary: r)
  case Nil
  then show ?case by simp
next
  case (Cons v vs)
  show ?case
  proof (cases rule: schedule_cases [where v = v and r = r])
    case nil
    then show ?thesis by (simp add: schedulesEntries_nil_head)
  next
    case (duplicate n w)
    show ?thesis using Cons.IH duplicate(1)
      by (simp add: schedulesEntries_duplicate [OF duplicate])
  next
    case (fresh n)
    show ?thesis using Cons.IH fresh(1) by (simp add: schedulesEntries_fresh [OF fresh])
  qed
qed

lemma schedulesEntries_lookup:
  "\<forall>v \<in> set vs. scheduleRoleName v \<noteq> None \<Longrightarrow>
   map_of (fst (fst (schedulesEntries vs r))) name =
     (case map_of r name of
        Some w \<Rightarrow> Some w
      | None \<Rightarrow> List.find (\<lambda>v. scheduleRoleName v = Some name) vs)"
proof (induction vs arbitrary: r)
  case Nil
  then show ?case by (simp split: option.splits)
next
  case (Cons v vs)
  from Cons.prems have rest: "\<forall>v \<in> set vs. scheduleRoleName v \<noteq> None"
    and v: "scheduleRoleName v \<noteq> None"
    by simp_all
  show ?case
  proof (cases rule: schedule_cases [where v = v and r = r])
    case nil
    with v show ?thesis by simp
  next
    case (duplicate n w)
    show ?thesis
      unfolding schedulesEntries_duplicate [OF duplicate]
      using duplicate Cons.IH [OF rest, of r]
      by (auto split: option.splits)
  next
    case (fresh n)
    show ?thesis
      unfolding schedulesEntries_fresh [OF fresh]
      using fresh Cons.IH [OF rest, of "r @ [(n, v)]"]
      by (auto simp: map_add_def split: option.splits)
  qed
qed

lemma schedulesEntries_distinct:
  "distinct (map fst r) \<Longrightarrow> distinct (map fst (fst (fst (schedulesEntries vs r))))"
proof (induction vs arbitrary: r)
  case Nil
  then show ?case by simp
next
  case (Cons v vs)
  show ?case
  proof (cases rule: schedule_cases [where v = v and r = r])
    case nil
    then show ?thesis using Cons.prems by (simp add: schedulesEntries_nil_head)
  next
    case (duplicate n w)
    show ?thesis using Cons.IH [OF Cons.prems]
      by (simp add: schedulesEntries_duplicate [OF duplicate])
  next
    case (fresh n)
    then have "distinct (map fst (r @ [(n, v)]))"
      using Cons.prems by (simp add: map_of_eq_None_iff)
    from Cons.IH [OF this] show ?thesis
      by (simp add: schedulesEntries_fresh [OF fresh])
  qed
qed

lemma schedulesEntries_events:
  "ev \<in> set (snd (schedulesEntries vs r)) \<Longrightarrow> isLogPrintf ev"
proof (induction vs arbitrary: r)
  case Nil
  then show ?case by simp
next
  case (Cons v vs)
  show ?case
  proof (cases rule: schedule_cases [where v = v and r = r])
    case nil
    then show ?thesis using Cons.prems by (simp add: schedulesEntries_nil_head)
  next
    case (duplicate n w)
    show ?thesis using Cons.IH [of r] Cons.prems
      by (auto simp: schedulesEntries_duplicate [OF duplicate] isLogPrintf_def)
  next
    case (fresh n)
    show ?thesis using Cons.IH [of "r @ [(n, v)]"] Cons.prems
      by (simp add: schedulesEntries_fresh [OF fresh])
  qed
qed

lemma schedulesPages_events:
  "ev \<in> set (snd (schedulesPages scope ps failure r)) \<Longrightarrow>
   ev = SchedulesNextPage scope \<or> isLogPrintf ev"
proof (induction ps arbitrary: r)
  case Nil
  then show ?case by (simp split: option.splits)
next
  case (Cons p ps)
  obtain m err where p: "fst (schedulesEntries p r) = (m, err)"
    by (cases "fst (schedulesEntries p r)")
  show ?case
    using Cons.prems Cons.IH [of m] p schedulesEntries_events [of ev p r]
    by (cases err) (auto simp: schedulesPages_Cons_snd simp del: schedulesPages.simps)
qed

lemma roleEligibilitySchedules_events:
  "ev \<in> set (snd (roleEligibilitySchedules az scope)) \<Longrightarrow>
   ev = SchedulesNextPage scope \<or> isLogPrintf ev"
  using schedulesPages_events [of ev scope "schedulePages az scope" "scheduleFailure az scope" "[]"]
  by (auto simp: roleEligibilitySchedules_def split: option.splits prod.splits)

lemma roleEligibilitySchedules_fst:
  "NewRoleEligibilitySchedulesClientErr az = None \<Longrightarrow>
   fst (roleEligibilitySchedules az scope) =
     (Some (fst (fst (schedulesEntries (reachedSchedules az scope) []))),
      if \<forall>v \<in> set (concat (schedulePages az scope)). scheduleRoleName v \<noteq> None
      then scheduleFailure az scope else Some DataIntegrityError)"
proof -
  assume client: "NewRoleEligibilitySchedulesClientErr az = None"
  obtain m err where r: "fst (schedulesEntries (concat (schedulePages az scope)) []) = (m, err)"
    by (cases "fst (schedulesEntries (concat (schedulePages az scope)) [])")
  define ok where "ok \<longleftrightarrow> (\<forall>v \<in> set (concat (schedulePages az scope)). scheduleRoleName v \<noteq> None)"
  have m: "m = fst (fst (schedulesEntries (reachedSchedules az scope) []))"
    using r schedulesEntries_takeWhile [of "concat (schedulePages az scope)" "[]"]
    by (simp add: reachedSchedules_def)
  have err: "err = (if ok then None else Some DataIntegrityError)"
    unfolding ok_def
    using r schedulesEntries_error [of "concat (schedulePages az scope)" "[]"] by simp
  have "fst (schedulesPages scope (schedulePages az scope) (scheduleFailure az scope) []) =
        (case (m, err) of (m, Some e) \<Rightarrow> (m, Some e)
         | (m, None) \<Rightarrow> (m, scheduleFailure az scope))"
    using schedulesPages_concat [of scope "schedulePages az scope" "scheduleFailure az scope" "[]"] r
    by simp
  then have "fst (roleEligibilitySchedules az scope) =
      (Some m, if ok then scheduleFailure az scope else Some DataIntegrityError)"
    using client err
    by (cases ok) (auto simp: roleEligibilitySchedules_def split: prod.splits)
  then show ?thesis
    unfolding ok_def m .
qed

section \<open>Log lines and insertions\<close>

lemma logLines_simps:
  "logLines [] = 0"
  "logLines (LogPrintf msg # evs) = Suc (logLines evs)"
  "logLines (SubscriptionsNextPage # evs) = logLines evs"
  "logLines (SchedulesNextPage scope # evs) = logLines evs"
  "logLines (evs @ evs') = logLines evs + logLines evs'"
  by (simp_all add: logLines_def isLogPrintf_def)

lemma enabledSubscription_simps:
  "v = Some s \<Longrightarrow> State s = Some st \<Longrightarrow>
   enabledSubscription v \<longleftrightarrow> st = SubscriptionStateEnabled"
  by (simp add: enabledSubscription_def)

lemma subscriptionsEntries_logLines:
  "logLines (snd (subscriptionsEntries vs subs)) + length (fst (fst (subscriptionsEntries vs subs))) =
     length subs
     + length (filter enabledSubscription (takeWhile (\<lambda>v. \<not> nilSubscription v) vs))"
proof (induction vs arbitrary: subs)
  case Nil
  then show ?case by (simp add: logLines_simps)
next
  case (Cons v vs)
  show ?case
  proof (cases v rule: subscription_cases)
    case nil
    then show ?thesis by (simp add: subscriptionsEntries_nil_head logLines_simps)
  next
    case (skipped s n i st)
    have v: "\<not> nilSubscription v" "\<not> enabledSubscription v"
      using skipped by (simp_all add: nilSubscription_Some enabledSubscription_def)
    show ?thesis
      using Cons.IH [of subs] v by (simp add: subscriptionsEntries_skipped [OF skipped])
  next
    case (enabled s n i)
    have v: "\<not> nilSubscription v" "enabledSubscription v"
      using enabled by (simp_all add: nilSubscription_Some enabledSubscription_def)
    show ?thesis
    proof (cases "map_of subs n")
      case None
      show ?thesis
        using Cons.IH [of "subs @ [(n, i)]"] v
        by (simp add: subscriptionsEntries_fresh [OF enabled None])
    next
      case (Some j)
      show ?thesis
        using Cons.IH [of subs] v
        by (simp add: subscriptionsEntries_duplicate [OF enabled Some] logLines_simps)
    qed
  qed
qed

lemma subscriptionsPages_logLines:
  "logLines (snd (subscriptionsPages ps failure subs))
     + length (fst (fst (subscriptionsPages ps failure subs))) =
     length subs
     + length (filter enabledSubscription (takeWhile (\<lambda>v. \<not> nilSubscription v) (concat ps)))"
proof (induction ps arbitrary: subs)
  case Nil
  then show ?case by (simp add: logLines_simps split: option.splits)
next
  case (Cons p ps)
  obtain m err where r: "fst (subscriptionsEntries p subs) = (m, err)"
    by (cases "fst (subscriptionsEntries p subs)")
  have e: "err = (if \<forall>v \<in> set p. \<not> nilSubscription v then None else Some DataIntegrityError)"
    using r subscriptionsEntries_error [of p subs] by simp
  note l = subscriptionsEntries_logLines [of p subs]
  show ?case
  proof (cases "\<forall>v \<in> set p. \<not> nilSubscription v")
    case True
    then have "takeWhile (\<lambda>v. \<not> nilSubscription v) (concat (p # ps)) =
        p @ takeWhile (\<lambda>v. \<not> nilSubscription v) (concat ps)"
      by (simp add: takeWhile_append2)
    moreover have tw: "takeWhile (\<lambda>v. \<not> nilSubscription v) p = p"
      using True by (simp add: takeWhile_eq_all_conv)
    have "logLines (snd (subscriptionsEntries p subs)) + length m =
        length subs + length (filter enabledSubscription p)"
      using l [unfolded tw] r by simp
    ultimately show ?thesis
      using True e r Cons.IH [of m]
      by (simp add: subscriptionsPages_Cons_fst subscriptionsPages_Cons_snd logLines_simps
            del: subscriptionsPages.simps)
  next
    case False
    then have "takeWhile (\<lambda>v. \<not> nilSubscription v) (concat (p # ps)) =
        takeWhile (\<lambda>v. \<not> nilSubscription v) p"
      by (auto simp: takeWhile_append1)
    moreover have "err = Some DataIntegrityError"
      using False e by simp
    ultimately show ?thesis
      using r l
      by (simp add: subscriptionsPages_Cons_fst subscriptionsPages_Cons_snd logLines_simps
            del: subscriptionsPages.simps)
  qed
qed

lemma schedulesEntries_logLines:
  "logLines (snd (schedulesEntries vs r)) + length (fst (fst (schedulesEntries vs r))) =
     length r + length (takeWhile (\<lambda>v. scheduleRoleName v \<noteq> None) vs)"
proof (induction vs arbitrary: r)
  case Nil
  then show ?case by (simp add: logLines_simps)
next
  case (Cons v vs)
  show ?case
  proof (cases rule: schedule_cases [where v = v and r = r])
    case nil
    then show ?thesis by (simp add: schedulesEntries_nil_head logLines_simps)
  next
    case (duplicate n w)
    show ?thesis using Cons.IH [of r] duplicate(1)
      by (simp add: schedulesEntries_duplicate [OF duplicate] logLines_simps)
  next
    case (fresh n)
    show ?thesis using Cons.IH [of "r @ [(n, v)]"] fresh(1)
      by (simp add: schedulesEntries_fresh [OF fresh])
  qed
qed

lemma schedulesPages_logLines:
  "logLines (snd (schedulesPages scope ps failure r))
     + length (fst (fst (schedulesPages scope ps failure r))) =
     length r + length (takeWhile (\<lambda>v. scheduleRoleName v \<noteq> None) (concat ps))"
proof (induction ps arbitrary: r)
  case Nil
  then show ?case by (simp add: logLines_simps split: option.splits)
next
  case (Cons p ps)
  obtain m err where r: "fst (schedulesEntries p r) = (m, err)"
    by (cases "fst (schedulesEntries p r)")
  have e: "err = (if \<forall>v \<in> set p. scheduleRoleName v \<noteq> None then None
                  else Some DataIntegrityError)"
    using r schedulesEntries_error [of p r] by simp
  note l = schedulesEntries_logLines [of p r]
  show ?case
  proof (cases "\<forall>v \<in> set p. scheduleRoleName v \<noteq> None")
    case True
    then have "takeWhile (\<lambda>v. scheduleRoleName v \<noteq> None) (concat (p # ps)) =
        p @ takeWhile (\<lambda>v. scheduleRoleName v \<noteq> None) (concat ps)"
      by (simp add: takeWhile_append2)
    moreover have tw: "takeWhile (\<lambda>v. scheduleRoleName v \<noteq> None) p = p"
      using True by (simp add: takeWhile_eq_all_conv)
    have "logLines (snd (schedulesEntries p r)) + length m = length r + length p"
      using l [unfolded tw] r by simp
    ultimately show ?thesis
      using True e r Cons.IH [of m]
      by (simp add: schedulesPages_Cons_fst schedulesPages_Cons_snd logLines_simps
            del: schedulesPages.simps)
  next
    case False
    then have "takeWhile (\<lambda>v. scheduleRoleName v \<noteq> None) (concat (p # ps)) =
        takeWhile (\<lambda>v. scheduleRoleName v \<noteq> None) p"
      by (auto simp: takeWhile_append1)
    moreover have "err = Some DataIntegrityError"
      using False e by simp
    ultimately show ?thesis
      using r l
      by (simp add: schedulesPages_Cons_fst schedulesPages_Cons_snd logLines_simps
            del: schedulesPages.simps)
  qed
qed

lemma roleEligibilitySchedules_snd:
  "NewRoleEligibilitySchedulesClientErr az = None \<Longrightarrow>
   snd (roleEligibilitySchedules az scope) =
     snd (schedulesPages scope (schedulePages az scope) (scheduleFailure az scope) [])"
  by (simp add: roleEligibilitySchedules_def split: prod.splits)

section \<open>The order of a range, and the events of the calls\<close>

lemma mset_pick_order: "mset (pick_order cs xs) = mset xs"
proof (induction cs xs rule: pick_order.induct)
  case (1 cs)
  then show ?case by simp
next
  case (2 x xs)
  then show ?case by simp
next
  case (3 c cs x xs)
  let ?ys = "x # xs"
  let ?i = "c mod length ?ys"
  have i: "?i < length ?ys" by simp
  have "mset ?ys = mset (take ?i ?ys @ ?ys ! ?i # drop (Suc ?i) ?ys)"
    using id_take_nth_drop [OF i] by simp
  then show ?case
    using 3 by (simp add: Let_def del: mod_Suc_eq mod_by_Suc_0)
qed

text \<open>Every order of the keys is the range order for some choice of the runtime.\<close>

lemma pick_order_any_order:
  "mset ys = mset xs \<Longrightarrow> \<exists>cs. pick_order cs xs = ys"
proof (induction ys arbitrary: xs)
  case Nil
  then show ?case by simp
next
  case (Cons y ys)
  then have "y \<in> set xs" by (metis list.set_intros(1) mset_eq_setD)
  then obtain i where i: "i < length xs" "xs ! i = y" by (auto simp: in_set_conv_nth)
  let ?xs' = "take i xs @ drop (Suc i) xs"
  have "mset xs = mset (take i xs @ xs ! i # drop (Suc i) xs)"
    using id_take_nth_drop [OF i(1)] by simp
  then have "mset ys = mset ?xs'"
    using Cons.prems i(2) by simp
  from Cons.IH [OF this] obtain cs where cs: "pick_order cs ?xs' = ys" ..
  obtain x xs'' where x: "xs = x # xs''" using i(1) by (cases xs) auto
  have "pick_order (i # cs) xs = y # ys"
    using i cs unfolding x by (simp add: Let_def del: mod_Suc_eq mod_by_Suc_0)
  then show ?case ..
qed

lemma set_rangeKeys: "set (rangeKeys order al) = dom (map_of al)"
  using mset_eq_setD [OF mset_pick_order [of order "map fst al"]]
  by (simp add: rangeKeys_def dom_map_of_conv_image_fst)

lemma distinct_rangeKeys: "distinct (map fst al) \<Longrightarrow> distinct (rangeKeys order al)"
  using mset_eq_imp_distinct_iff [OF mset_pick_order [of order "map fst al"]]
  by (simp add: rangeKeys_def)

lemma roleEligibilitySchedules_distinct:
  assumes "roleEligibilitySchedules az scope = ((Some res, err), evs)"
  shows "distinct (map fst res)"
proof (cases "NewRoleEligibilitySchedulesClientErr az")
  case None
  have "res = fst (fst (schedulesEntries (reachedSchedules az scope) []))"
    using roleEligibilitySchedules_fst [OF None, of scope] assms by simp
  then show ?thesis by (simp add: schedulesEntries_distinct)
next
  case (Some e)
  then show ?thesis using assms by (simp add: roleEligibilitySchedules_def)
qed

lemma Subscriptions_no_schedule_fetch:
  "ev \<in> set (snd (Subscriptions az)) \<Longrightarrow> \<not> isSchedulesNextPage ev \<and> \<not> isCreate ev"
  using Subscriptions_events [of ev az]
  by (auto simp: isSchedulesNextPage_def isCreate_def isLogPrintf_def split: event.splits)

lemma roleEligibilitySchedules_no_create:
  "ev \<in> set (snd (roleEligibilitySchedules az scope)) \<Longrightarrow> \<not> isCreate ev"
  using roleEligibilitySchedules_events [of ev az scope]
  by (auto simp: isCreate_def isLogPrintf_def split: event.splits)

lemma createRequest_events:
  "ev \<in> set (snd (createRequest az scope req)) \<Longrightarrow> \<not> isSchedulesNextPage ev"
  by (auto simp: createRequest_def isSchedulesNextPage_def
        split: sum.splits option.splits if_splits)

lemma ActiveRoleAssignment_snd:
  assumes subs: "Subscriptions az = ((subs, None), evs1)"
    and sub: "lookup subs subscriptionName = Some sub"
  shows "\<exists>evs3. snd (ActiveRoleAssignment s az subscriptionName roleDisplayName justifiction duration)
           = evs1 @ snd (roleEligibilitySchedules az (''subscriptions/'' @ sub)) @ evs3
         \<and> (\<forall>ev \<in> set evs3. \<not> isSchedulesNextPage ev)"
proof -
  obtain res err evs2 where r: "roleEligibilitySchedules az (''subscriptions/'' @ sub) =
      ((res, err), evs2)"
    by (metis prod.collapse)
  show ?thesis
  proof (cases err)
    case (Some e)
    then show ?thesis using subs sub r by (simp add: ActiveRoleAssignment_def)
  next
    case None
    show ?thesis
    proof (cases "lookup res roleDisplayName")
      case n: None
      then show ?thesis using subs sub r None by (simp add: ActiveRoleAssignment_def)
    next
      case (Some re)
      show ?thesis
      proof (cases "nilFields re")
        case True
        then show ?thesis using subs sub r None Some by (simp add: ActiveRoleAssignment_def)
      next
        case False
        let ?c = "createRequest az (''/subscriptions/'' @ sub)
                    (buildRequest s az re justifiction duration)"
        have "snd (ActiveRoleAssignment s az subscriptionName roleDisplayName justifiction
                duration) = evs1 @ evs2 @ snd ?c"
          using subs sub r None Some False
          by (simp add: ActiveRoleAssignment_def split: prod.splits)
        moreover have "\<forall>ev \<in> set (snd ?c). \<not> isSchedulesNextPage ev"
          using createRequest_events by blast
        ultimately show ?thesis using r by auto
      qed
    qed
  qed
qed

lemma RolesForSubscription_snd:
  assumes subs: "Subscriptions az = ((subs, None), evs1)"
    and sub: "lookup subs subscriptionName = Some sub"
  shows "snd (RolesForSubscription az subscriptionName) =
           evs1 @ snd (roleEligibilitySchedules az (''/subscriptions/'' @ sub))"
  using subs sub
  by (simp add: RolesForSubscription_def split: prod.splits option.splits)

section \<open>The example worlds, evaluated\<close>

lemma disabledFirstAzure_Subscriptions:
  "Subscriptions disabledFirstAzure =
     ((Some [(''Prod'', ''sub-2'')], None), [SubscriptionsNextPage])"
  by (simp add: Subscriptions_def disabledFirstAzure_def exampleAzure_def subscriptionEntry_def
        SubscriptionStateEnabled_def subscriptionsEntries.simps(2))

lemma exampleAzure_schedules:
  "roleEligibilitySchedules exampleAzure ''subscriptions/sub-1'' =
     ((Some [(''Contributor'', scheduleEntry ''sched-1'' ''Contributor'' ''role-c''),
             (''Reader'', scheduleEntry ''sched-2'' ''Reader'' ''role-r'')], None),
      [SchedulesNextPage ''subscriptions/sub-1'', SchedulesNextPage ''subscriptions/sub-1'',
       LogPrintf ''WARNING: duplicate eligiblity ignored for role Contributor''])"
  by (simp add: roleEligibilitySchedules_def exampleAzure_def scheduleEntry_def
        scheduleRoleName_def schedulesEntries.simps(2))

lemma exampleAzure_schedules_slash:
  "roleEligibilitySchedules exampleAzure ''/subscriptions/sub-1'' =
     ((Some [(''Contributor'', scheduleEntry ''sched-1'' ''Contributor'' ''role-c''),
             (''Reader'', scheduleEntry ''sched-2'' ''Reader'' ''role-r'')], None),
      [SchedulesNextPage ''/subscriptions/sub-1'', SchedulesNextPage ''/subscriptions/sub-1'',
       LogPrintf ''WARNING: duplicate eligiblity ignored for role Contributor''])"
  by (simp add: roleEligibilitySchedules_def exampleAzure_def scheduleEntry_def
        scheduleRoleName_def schedulesEntries.simps(2))

lemma nilScheduleAzure_Subscriptions:
  "Subscriptions nilScheduleAzure =
     ((Some [(''Prod'', ''sub-1''), (''Dev'', ''sub-3'')], None),
      [SubscriptionsNextPage, SubscriptionsNextPage,
       LogPrintf ''WARNING: duplicate subscription ignored: Prod''])"
  by (simp add: Subscriptions_def nilScheduleAzure_def exampleAzure_def subscriptionEntry_def
        SubscriptionStateEnabled_def subscriptionsEntries.simps(2))

lemma nilScheduleAzure_schedules:
  "roleEligibilitySchedules nilScheduleAzure ''subscriptions/sub-1'' =
     ((Some [(''Reader'',
              Some \<lparr>ID = None,
                    Properties = Some
                      \<lparr>ExpandedProperties = Some
                         \<lparr>RoleDefinition = Some \<lparr>RoleDisplayName = Some ''Reader''\<rparr>\<rparr>,
                       RoleDefinitionID = Some ''role-r''\<rparr>\<rparr>)], None),
      [SchedulesNextPage ''subscriptions/sub-1''])"
  by (simp add: roleEligibilitySchedules_def nilScheduleAzure_def exampleAzure_def
        scheduleRoleName_def schedulesEntries.simps(2))


section \<open>The first aggregated occurrence of a display name wins\<close>

text \<open>
  C2, as amended. For both listings, when the client is created, the mapping returned has
  one entry for each display name among the entries it aggregates, and that entry holds
  the value of the first aggregated occurrence in page order. The aggregated entries are,
  for \<open>Subscriptions\<close>, the enabled entries before the first entry that fails the nil
  test, and for \<open>roleEligibilitySchedules\<close> all the entries before the first one that
  fails it. Every aggregated entry is either inserted or dropped with one line written to
  the log, so a later duplicate never overwrites an earlier entry.
\<close>

theorem first_aggregated_occurrence_wins:
  "(NewSubscriptionsClientErr az = None \<longrightarrow>
      (\<exists>subs. fst (fst (Subscriptions az)) = Some subs \<and> distinct (map fst subs)
         \<and> (\<forall>name. map_of subs name =
               (case List.find (enabledNamed name) (reachedSubscriptions az) of
                  None \<Rightarrow> None
                | Some v \<Rightarrow> Option.bind v SubscriptionID))
         \<and> logLines (snd (Subscriptions az)) + length subs =
             length (filter enabledSubscription (reachedSubscriptions az))))
   \<and> (NewRoleEligibilitySchedulesClientErr az = None \<longrightarrow>
      (\<exists>res. fst (fst (roleEligibilitySchedules az scope)) = Some res \<and> distinct (map fst res)
         \<and> (\<forall>name. map_of res name =
               List.find (\<lambda>v. scheduleRoleName v = Some name) (reachedSchedules az scope))
         \<and> logLines (snd (roleEligibilitySchedules az scope)) + length res =
             length (reachedSchedules az scope)))"
proof (intro conjI impI)
  assume client: "NewSubscriptionsClientErr az = None"
  let ?subs = "fst (fst (subscriptionsEntries (reachedSubscriptions az) []))"
  have reached: "\<forall>v \<in> set (reachedSubscriptions az). \<not> nilSubscription v"
    unfolding reachedSubscriptions_def by (auto dest: set_takeWhileD)
  have 1: "fst (fst (Subscriptions az)) = Some ?subs"
    using Subscriptions_fst [OF client] by simp
  have 2: "distinct (map fst ?subs)"
    by (rule subscriptionsEntries_distinct) simp
  have 3: "map_of ?subs name =
      (case List.find (enabledNamed name) (reachedSubscriptions az) of
         None \<Rightarrow> None
       | Some v \<Rightarrow> Option.bind v SubscriptionID)" for name
    using subscriptionsEntries_lookup [OF reached, of "[]" name] by simp
  have "fst (fst (subscriptionsPages (subscriptionPages az) (subscriptionFailure az) [])) = ?subs"
    using 1 client by (simp add: Subscriptions_def split: prod.splits)
  then have 4: "logLines (snd (Subscriptions az)) + length ?subs =
      length (filter enabledSubscription (reachedSubscriptions az))"
    using subscriptionsPages_logLines [of "subscriptionPages az" "subscriptionFailure az" "[]"]
    by (simp add: Subscriptions_snd [OF client] reachedSubscriptions_def)
  show "\<exists>subs. fst (fst (Subscriptions az)) = Some subs \<and> distinct (map fst subs)
         \<and> (\<forall>name. map_of subs name =
               (case List.find (enabledNamed name) (reachedSubscriptions az) of
                  None \<Rightarrow> None
                | Some v \<Rightarrow> Option.bind v SubscriptionID))
         \<and> logLines (snd (Subscriptions az)) + length subs =
             length (filter enabledSubscription (reachedSubscriptions az))"
    using 1 2 3 4 by blast
next
  assume client: "NewRoleEligibilitySchedulesClientErr az = None"
  let ?res = "fst (fst (schedulesEntries (reachedSchedules az scope) []))"
  have reached: "\<forall>v \<in> set (reachedSchedules az scope). scheduleRoleName v \<noteq> None"
    unfolding reachedSchedules_def by (auto dest: set_takeWhileD)
  have 1: "fst (fst (roleEligibilitySchedules az scope)) = Some ?res"
    using roleEligibilitySchedules_fst [OF client] by simp
  have 2: "distinct (map fst ?res)"
    by (rule schedulesEntries_distinct) simp
  have 3: "map_of ?res name =
      List.find (\<lambda>v. scheduleRoleName v = Some name) (reachedSchedules az scope)" for name
    using schedulesEntries_lookup [OF reached, of "[]" name] by simp
  have "fst (fst (schedulesPages scope (schedulePages az scope) (scheduleFailure az scope) []))
      = ?res"
    using 1 client by (simp add: roleEligibilitySchedules_def split: prod.splits)
  then have 4: "logLines (snd (roleEligibilitySchedules az scope)) + length ?res =
      length (reachedSchedules az scope)"
    using schedulesPages_logLines [of scope "schedulePages az scope" "scheduleFailure az scope" "[]"]
    by (simp add: roleEligibilitySchedules_snd [OF client] reachedSchedules_def)
  show "\<exists>res. fst (fst (roleEligibilitySchedules az scope)) = Some res \<and> distinct (map fst res)
         \<and> (\<forall>name. map_of res name =
               List.find (\<lambda>v. scheduleRoleName v = Some name) (reachedSchedules az scope))
         \<and> logLines (snd (roleEligibilitySchedules az scope)) + length res =
             length (reachedSchedules az scope)"
    using 1 2 3 4 by blast
qed

theorem first_aggregated_occurrence_wins_witness:
  "NewSubscriptionsClientErr exampleAzure = None
   \<and> NewRoleEligibilitySchedulesClientErr exampleAzure = None
   \<and> fst (fst (Subscriptions exampleAzure)) = Some [(''Prod'', ''sub-1''), (''Dev'', ''sub-3'')]
   \<and> List.find (enabledNamed ''Prod'') (reachedSubscriptions exampleAzure) =
       Some (subscriptionEntry ''Prod'' ''sub-1'' ''Enabled'')
   \<and> logLines (snd (Subscriptions exampleAzure)) = 1
   \<and> length (filter enabledSubscription (reachedSubscriptions exampleAzure)) = 3
   \<and> fst (fst (roleEligibilitySchedules exampleAzure ''subscriptions/sub-1'')) =
       Some [(''Contributor'', scheduleEntry ''sched-1'' ''Contributor'' ''role-c''),
             (''Reader'', scheduleEntry ''sched-2'' ''Reader'' ''role-r'')]
   \<and> List.find (\<lambda>v. scheduleRoleName v = Some ''Contributor'')
         (reachedSchedules exampleAzure ''subscriptions/sub-1'') =
       Some (scheduleEntry ''sched-1'' ''Contributor'' ''role-c'')
   \<and> logLines (snd (roleEligibilitySchedules exampleAzure ''subscriptions/sub-1'')) = 1
   \<and> length (reachedSchedules exampleAzure ''subscriptions/sub-1'') = 3"
proof -
  have c1: "NewSubscriptionsClientErr exampleAzure = None"
    and c2: "NewRoleEligibilitySchedulesClientErr exampleAzure = None"
    by (simp_all add: exampleAzure_def)
  note t = first_aggregated_occurrence_wins [of exampleAzure "''subscriptions/sub-1''"]
  from t c1 obtain subs where subs: "fst (fst (Subscriptions exampleAzure)) = Some subs"
      "\<forall>name. map_of subs name =
         (case List.find (enabledNamed name) (reachedSubscriptions exampleAzure) of
            None \<Rightarrow> None | Some v \<Rightarrow> Option.bind v SubscriptionID)"
      "logLines (snd (Subscriptions exampleAzure)) + length subs =
         length (filter enabledSubscription (reachedSubscriptions exampleAzure))"
    by blast
  from t c2 obtain res where res:
      "fst (fst (roleEligibilitySchedules exampleAzure ''subscriptions/sub-1'')) = Some res"
      "\<forall>name. map_of res name =
         List.find (\<lambda>v. scheduleRoleName v = Some name)
           (reachedSchedules exampleAzure ''subscriptions/sub-1'')"
      "logLines (snd (roleEligibilitySchedules exampleAzure ''subscriptions/sub-1'')) + length res
         = length (reachedSchedules exampleAzure ''subscriptions/sub-1'')"
    by blast
  have s: "subs = [(''Prod'', ''sub-1''), (''Dev'', ''sub-3'')]"
    using subs(1) by (simp add: exampleAzure_Subscriptions)
  have r: "res = [(''Contributor'', scheduleEntry ''sched-1'' ''Contributor'' ''role-c''),
                  (''Reader'', scheduleEntry ''sched-2'' ''Reader'' ''role-r'')]"
    using res(1) by (simp add: exampleAzure_schedules)
  have f1: "List.find (enabledNamed ''Prod'') (reachedSubscriptions exampleAzure) =
       Some (subscriptionEntry ''Prod'' ''sub-1'' ''Enabled'')"
    by (simp add: reachedSubscriptions_def exampleAzure_def subscriptionEntry_def
          nilSubscription_def enabledNamed_def SubscriptionStateEnabled_def)
  have f2: "List.find (\<lambda>v. scheduleRoleName v = Some ''Contributor'')
         (reachedSchedules exampleAzure ''subscriptions/sub-1'') =
       Some (scheduleEntry ''sched-1'' ''Contributor'' ''role-c'')"
    by (simp add: reachedSchedules_def exampleAzure_def scheduleEntry_def scheduleRoleName_def)
  show ?thesis
    using c1 c2 subs(1,3) res(1,3) f1 f2 unfolding s r
    by (simp add: exampleAzure_Subscriptions exampleAzure_schedules logLines_def isLogPrintf_def)
qed

text \<open>
  The claim as stated fails for \<open>Subscriptions\<close>: the first entry named \<open>Prod\<close> in page
  order is disabled and carries \<open>sub-1\<close>, and the mapping holds \<open>sub-2\<close>, the value of
  the second entry.
\<close>

theorem first_occurrence_counterexample:
  "hd (concat (subscriptionPages disabledFirstAzure)) =
     subscriptionEntry ''Prod'' ''sub-1'' ''Disabled''
   \<and> fst (Subscriptions disabledFirstAzure) = (Some [(''Prod'', ''sub-2'')], None)"
  by (simp add: disabledFirstAzure_Subscriptions) (simp add: disabledFirstAzure_def)

section \<open>ActiveRoleAssignment: a name that does not resolve\<close>

text \<open>
  C4. After \<open>Subscriptions\<close> has returned without error: when the subscription name is
  not a key of its mapping, \<open>ActiveRoleAssignment\<close> returns \<open>SubscriptionNotFound\<close>
  and its events are those of the subscription listing alone, with no fetch of
  eligibility schedules and no create call; when the name resolves, the schedule listing
  at the scope of that subscription returns without error and the role name is not a key
  of its mapping, the call returns \<open>RoleNotFound\<close>, its events are those of the
  subscription listing followed by those of the schedule listing, and none of them is a
  create call.
\<close>

theorem ActiveRoleAssignment_not_found:
  assumes subs: "Subscriptions az = ((subs, None), evs1)"
  shows "(lookup subs subscriptionName = None \<longrightarrow>
            ActiveRoleAssignment s az subscriptionName roleDisplayName justifiction duration =
              (Some SubscriptionNotFound, evs1)
            \<and> (\<forall>ev \<in> set evs1. \<not> isSchedulesNextPage ev \<and> \<not> isCreate ev))
       \<and> (lookup subs subscriptionName = Some sub
            \<and> roleEligibilitySchedules az (''subscriptions/'' @ sub) = ((res, None), evs2)
            \<and> lookup res roleDisplayName = None \<longrightarrow>
            ActiveRoleAssignment s az subscriptionName roleDisplayName justifiction duration =
              (Some RoleNotFound, evs1 @ evs2)
            \<and> (\<forall>ev \<in> set (evs1 @ evs2). \<not> isCreate ev))"
proof (intro conjI impI ballI)
  assume "lookup subs subscriptionName = None"
  then show "ActiveRoleAssignment s az subscriptionName roleDisplayName justifiction duration =
      (Some SubscriptionNotFound, evs1)"
    using subs by (simp add: ActiveRoleAssignment_def)
next
  fix ev assume "ev \<in> set evs1"
  then have "\<not> isSchedulesNextPage ev \<and> \<not> isCreate ev"
    using Subscriptions_no_schedule_fetch [of ev az] subs by simp
  then show "\<not> isSchedulesNextPage ev" and "\<not> isCreate ev" by simp_all
next
  assume h: "lookup subs subscriptionName = Some sub
      \<and> roleEligibilitySchedules az (''subscriptions/'' @ sub) = ((res, None), evs2)
      \<and> lookup res roleDisplayName = None"
  then show "ActiveRoleAssignment s az subscriptionName roleDisplayName justifiction duration =
      (Some RoleNotFound, evs1 @ evs2)"
    using subs by (simp add: ActiveRoleAssignment_def)
  fix ev assume "ev \<in> set (evs1 @ evs2)"
  then show "\<not> isCreate ev"
    using Subscriptions_no_schedule_fetch [of ev az] subs h
      roleEligibilitySchedules_no_create [of ev az "''subscriptions/'' @ sub"]
    by auto
qed

theorem ActiveRoleAssignment_not_found_witness:
  "ActiveRoleAssignment exampleSession exampleAzure ''nonexistent'' ''Reader'' ''on-call''
       (90 * Minute) =
     (Some SubscriptionNotFound,
      [SubscriptionsNextPage, SubscriptionsNextPage,
       LogPrintf ''WARNING: duplicate subscription ignored: Prod''])
   \<and> ActiveRoleAssignment exampleSession exampleAzure ''Prod'' ''Owner'' ''on-call''
       (90 * Minute) =
     (Some RoleNotFound,
      [SubscriptionsNextPage, SubscriptionsNextPage,
       LogPrintf ''WARNING: duplicate subscription ignored: Prod'',
       SchedulesNextPage ''subscriptions/sub-1'', SchedulesNextPage ''subscriptions/sub-1'',
       LogPrintf ''WARNING: duplicate eligiblity ignored for role Contributor''])"
proof -
  have l1: "lookup (Some [(''Prod'', ''sub-1''), (''Dev'', ''sub-3'')]) ''nonexistent'' = None"
    and l2: "lookup (Some [(''Prod'', ''sub-1''), (''Dev'', ''sub-3'')]) ''Prod'' = Some ''sub-1''"
    by (simp_all add: lookup_def)
  have l3: "lookup (Some [(''Contributor'', scheduleEntry ''sched-1'' ''Contributor'' ''role-c''),
             (''Reader'', scheduleEntry ''sched-2'' ''Reader'' ''role-r'')]) ''Owner'' = None"
    by (simp add: lookup_def)
  have sch: "roleEligibilitySchedules exampleAzure (''subscriptions/'' @ ''sub-1'') =
     ((Some [(''Contributor'', scheduleEntry ''sched-1'' ''Contributor'' ''role-c''),
             (''Reader'', scheduleEntry ''sched-2'' ''Reader'' ''role-r'')], None),
      [SchedulesNextPage ''subscriptions/sub-1'', SchedulesNextPage ''subscriptions/sub-1'',
       LogPrintf ''WARNING: duplicate eligiblity ignored for role Contributor''])"
    using exampleAzure_schedules by simp
  note a = ActiveRoleAssignment_not_found [OF exampleAzure_Subscriptions, THEN conjunct1,
      rule_format, OF l1, THEN conjunct1]
  note b = ActiveRoleAssignment_not_found [OF exampleAzure_Subscriptions, THEN conjunct2,
      rule_format, OF conjI [OF l2 conjI [OF sch l3]], THEN conjunct1]
  show ?thesis
    using a b by simp
qed

section \<open>RolesForSubscription\<close>

text \<open>
  C6. After \<open>Subscriptions\<close> has returned without error: when the subscription name is
  not a key of its mapping, \<open>RolesForSubscription\<close> returns \<open>SubscriptionNotFound\<close>
  with no role and fetches no page of eligibility schedules; when the name resolves and
  the schedule listing returns without error, it returns the keys of the schedule mapping,
  each once, in the order in which the runtime ranges over the map, with no sorting.
\<close>

theorem RolesForSubscription_resolution:
  assumes subs: "Subscriptions az = ((subs, None), evs1)"
  shows "(lookup subs subscriptionName = None \<longrightarrow>
            RolesForSubscription az subscriptionName = (([], Some SubscriptionNotFound), evs1)
            \<and> (\<forall>ev \<in> set evs1. \<not> isSchedulesNextPage ev))
       \<and> (lookup subs subscriptionName = Some sub
            \<and> roleEligibilitySchedules az (''/subscriptions/'' @ sub) = ((Some res, None), evs2) \<longrightarrow>
            RolesForSubscription az subscriptionName =
              ((rangeKeys (rangeOrder az) res, None), evs1 @ evs2)
            \<and> set (rangeKeys (rangeOrder az) res) = dom (map_of res)
            \<and> distinct (rangeKeys (rangeOrder az) res))"
proof (intro conjI impI ballI)
  assume "lookup subs subscriptionName = None"
  then show "RolesForSubscription az subscriptionName = (([], Some SubscriptionNotFound), evs1)"
    using subs by (simp add: RolesForSubscription_def)
next
  fix ev assume "ev \<in> set evs1"
  then show "\<not> isSchedulesNextPage ev"
    using Subscriptions_no_schedule_fetch [of ev az] subs by simp
next
  assume h: "lookup subs subscriptionName = Some sub
      \<and> roleEligibilitySchedules az (''/subscriptions/'' @ sub) = ((Some res, None), evs2)"
  then show "RolesForSubscription az subscriptionName =
      ((rangeKeys (rangeOrder az) res, None), evs1 @ evs2)"
    using subs by (simp add: RolesForSubscription_def)
  show "set (rangeKeys (rangeOrder az) res) = dom (map_of res)"
    by (rule set_rangeKeys)
  from h show "distinct (rangeKeys (rangeOrder az) res)"
    using roleEligibilitySchedules_distinct distinct_rangeKeys by blast
qed

theorem RolesForSubscription_resolution_witness:
  "RolesForSubscription exampleAzure ''nonexistent'' =
     (([], Some SubscriptionNotFound),
      [SubscriptionsNextPage, SubscriptionsNextPage,
       LogPrintf ''WARNING: duplicate subscription ignored: Prod''])
   \<and> RolesForSubscription exampleAzure ''Prod'' =
     (([''Reader'', ''Contributor''], None),
      [SubscriptionsNextPage, SubscriptionsNextPage,
       LogPrintf ''WARNING: duplicate subscription ignored: Prod'',
       SchedulesNextPage ''/subscriptions/sub-1'', SchedulesNextPage ''/subscriptions/sub-1'',
       LogPrintf ''WARNING: duplicate eligiblity ignored for role Contributor''])"
proof -
  have l1: "lookup (Some [(''Prod'', ''sub-1''), (''Dev'', ''sub-3'')]) ''nonexistent'' = None"
    and l2: "lookup (Some [(''Prod'', ''sub-1''), (''Dev'', ''sub-3'')]) ''Prod'' = Some ''sub-1''"
    by (simp_all add: lookup_def)
  have k: "rangeKeys (rangeOrder exampleAzure)
      [(''Contributor'', scheduleEntry ''sched-1'' ''Contributor'' ''role-c''),
       (''Reader'', scheduleEntry ''sched-2'' ''Reader'' ''role-r'')] = [''Reader'', ''Contributor'']"
    by (simp add: rangeKeys_def exampleAzure_def)
  have sch: "roleEligibilitySchedules exampleAzure (''/subscriptions/'' @ ''sub-1'') =
     ((Some [(''Contributor'', scheduleEntry ''sched-1'' ''Contributor'' ''role-c''),
             (''Reader'', scheduleEntry ''sched-2'' ''Reader'' ''role-r'')], None),
      [SchedulesNextPage ''/subscriptions/sub-1'', SchedulesNextPage ''/subscriptions/sub-1'',
       LogPrintf ''WARNING: duplicate eligiblity ignored for role Contributor''])"
    using exampleAzure_schedules_slash by simp
  note a = RolesForSubscription_resolution [OF exampleAzure_Subscriptions, THEN conjunct1,
      rule_format, OF l1, THEN conjunct1]
  note b = RolesForSubscription_resolution [OF exampleAzure_Subscriptions, THEN conjunct2,
      rule_format, OF conjI [OF l2 sch], THEN conjunct1]
  show ?thesis
    using a b by (simp add: k)
qed

section \<open>The activation request\<close>



section \<open>The two scope formats\<close>

text \<open>
  C8. For a subscription name that resolves to the identifier \<open>sub\<close>,
  \<open>RolesForSubscription\<close> lists the eligibility schedules at the scope
  \<open>/subscriptions/sub\<close> and \<open>ActiveRoleAssignment\<close> lists them at the scope
  \<open>subscriptions/sub\<close>: every page of schedules either call fetches is fetched at its
  own scope, and the two scopes differ.
\<close>

theorem scope_formats_differ:
  assumes subs: "Subscriptions az = ((subs, None), evs1)"
    and sub: "lookup subs subscriptionName = Some sub"
  shows "snd (RolesForSubscription az subscriptionName) =
           evs1 @ snd (roleEligibilitySchedules az (''/subscriptions/'' @ sub))
       \<and> (\<forall>scope. SchedulesNextPage scope \<in> set (snd (RolesForSubscription az subscriptionName))
             \<longrightarrow> scope = ''/subscriptions/'' @ sub)
       \<and> (\<exists>evs3. snd (ActiveRoleAssignment s az subscriptionName roleDisplayName justifiction
                         duration) =
             evs1 @ snd (roleEligibilitySchedules az (''subscriptions/'' @ sub)) @ evs3
             \<and> (\<forall>ev \<in> set evs3. \<not> isSchedulesNextPage ev))
       \<and> (\<forall>scope. SchedulesNextPage scope
               \<in> set (snd (ActiveRoleAssignment s az subscriptionName roleDisplayName justifiction
                             duration))
             \<longrightarrow> scope = ''subscriptions/'' @ sub)
       \<and> ''/subscriptions/'' @ sub \<noteq> ''subscriptions/'' @ sub"
proof (intro conjI allI impI)
  have evs1: "\<not> isSchedulesNextPage ev" if "ev \<in> set evs1" for ev
    using Subscriptions_no_schedule_fetch [of ev az] subs that by simp
  show roles: "snd (RolesForSubscription az subscriptionName) =
      evs1 @ snd (roleEligibilitySchedules az (''/subscriptions/'' @ sub))"
    by (rule RolesForSubscription_snd [OF subs sub])
  show active: "\<exists>evs3. snd (ActiveRoleAssignment s az subscriptionName roleDisplayName
        justifiction duration) =
      evs1 @ snd (roleEligibilitySchedules az (''subscriptions/'' @ sub)) @ evs3
      \<and> (\<forall>ev \<in> set evs3. \<not> isSchedulesNextPage ev)"
    by (rule ActiveRoleAssignment_snd [OF subs sub])
  show "''/subscriptions/'' @ sub \<noteq> ''subscriptions/'' @ sub"
    by simp
  {
    fix scope
    assume "SchedulesNextPage scope \<in> set (snd (RolesForSubscription az subscriptionName))"
    then have "SchedulesNextPage scope \<in> set evs1
        \<or> SchedulesNextPage scope
            \<in> set (snd (roleEligibilitySchedules az (''/subscriptions/'' @ sub)))"
      using roles by simp
    then show "scope = ''/subscriptions/'' @ sub"
      using evs1 [of "SchedulesNextPage scope"]
        roleEligibilitySchedules_events [of "SchedulesNextPage scope" az "''/subscriptions/'' @ sub"]
      by (auto simp: isSchedulesNextPage_def isLogPrintf_def)
  }
  {
    fix scope
    assume a: "SchedulesNextPage scope
        \<in> set (snd (ActiveRoleAssignment s az subscriptionName roleDisplayName justifiction
              duration))"
    from active obtain evs3 where e: "snd (ActiveRoleAssignment s az subscriptionName
          roleDisplayName justifiction duration) =
        evs1 @ snd (roleEligibilitySchedules az (''subscriptions/'' @ sub)) @ evs3"
        "\<forall>ev \<in> set evs3. \<not> isSchedulesNextPage ev"
      by blast
    have "SchedulesNextPage scope \<notin> set evs3"
      using e(2) by (auto simp: isSchedulesNextPage_def)
    then have "SchedulesNextPage scope \<in> set evs1
        \<or> SchedulesNextPage scope
            \<in> set (snd (roleEligibilitySchedules az (''subscriptions/'' @ sub)))"
      using a e(1) by simp
    then show "scope = ''subscriptions/'' @ sub"
      using evs1 [of "SchedulesNextPage scope"]
        roleEligibilitySchedules_events [of "SchedulesNextPage scope" az "''subscriptions/'' @ sub"]
      by (auto simp: isSchedulesNextPage_def isLogPrintf_def)
  }
qed

theorem scope_formats_differ_witness:
  "snd (RolesForSubscription exampleAzure ''Prod'') =
     [SubscriptionsNextPage, SubscriptionsNextPage,
      LogPrintf ''WARNING: duplicate subscription ignored: Prod'',
      SchedulesNextPage ''/subscriptions/sub-1'', SchedulesNextPage ''/subscriptions/sub-1'',
      LogPrintf ''WARNING: duplicate eligiblity ignored for role Contributor'']
   \<and> snd (ActiveRoleAssignment exampleSession exampleAzure ''Prod'' ''Owner'' ''on-call''
           (90 * Minute)) =
     [SubscriptionsNextPage, SubscriptionsNextPage,
      LogPrintf ''WARNING: duplicate subscription ignored: Prod'',
      SchedulesNextPage ''subscriptions/sub-1'', SchedulesNextPage ''subscriptions/sub-1'',
      LogPrintf ''WARNING: duplicate eligiblity ignored for role Contributor'']
   \<and> ''/subscriptions/'' @ ''sub-1'' \<noteq> ''subscriptions/'' @ ''sub-1''"
proof -
  have l2: "lookup (Some [(''Prod'', ''sub-1''), (''Dev'', ''sub-3'')]) ''Prod'' = Some ''sub-1''"
    by (simp add: lookup_def)
  note t = scope_formats_differ [OF exampleAzure_Subscriptions l2,
      of exampleSession "''Owner''" "''on-call''" "90 * Minute"]
  have a: "snd (ActiveRoleAssignment exampleSession exampleAzure ''Prod'' ''Owner'' ''on-call''
           (90 * Minute)) =
     [SubscriptionsNextPage, SubscriptionsNextPage,
      LogPrintf ''WARNING: duplicate subscription ignored: Prod'',
      SchedulesNextPage ''subscriptions/sub-1'', SchedulesNextPage ''subscriptions/sub-1'',
      LogPrintf ''WARNING: duplicate eligiblity ignored for role Contributor'']"
    by (simp add: ActiveRoleAssignment_def exampleAzure_Subscriptions lookup_def
          exampleAzure_schedules)
  from t have "snd (RolesForSubscription exampleAzure ''Prod'') =
      [SubscriptionsNextPage, SubscriptionsNextPage,
       LogPrintf ''WARNING: duplicate subscription ignored: Prod''] @
      snd (roleEligibilitySchedules exampleAzure (''/subscriptions/'' @ ''sub-1''))"
    by blast
  then show ?thesis
    using a by (simp add: exampleAzure_schedules_slash)
qed

section \<open>A schedule record with a missing field\<close>

text \<open>
  C9. When the subscription and the role resolve and the resolved schedule record lacks
  its identifier, its role definition identifier or a step of its expanded properties
  path, \<open>ActiveRoleAssignment\<close> returns \<open>DataIntegrityError\<close>; its events are those of
  the two listings and none of them is a create call.
\<close>

theorem ActiveRoleAssignment_nil_schedule_field:
  assumes subs: "Subscriptions az = ((subs, None), evs1)"
    and sub: "lookup subs subscriptionName = Some sub"
    and scheds: "roleEligibilitySchedules az (''subscriptions/'' @ sub) = ((res, None), evs2)"
    and role: "lookup res roleDisplayName = Some re"
    and missing: "Option.bind re ID = None
        \<or> Option.bind (Option.bind re Properties) RoleDefinitionID = None
        \<or> Option.bind (Option.bind (Option.bind re Properties) ExpandedProperties) RoleDefinition
            = None"
  shows "ActiveRoleAssignment s az subscriptionName roleDisplayName justifiction duration =
           (Some DataIntegrityError, evs1 @ evs2)
         \<and> (\<forall>ev \<in> set (evs1 @ evs2). \<not> isCreate ev)"
proof (intro conjI ballI)
  have "nilFields re"
    using missing by (auto simp: nilFields_def split: option.splits)
  then show "ActiveRoleAssignment s az subscriptionName roleDisplayName justifiction duration =
      (Some DataIntegrityError, evs1 @ evs2)"
    using subs sub scheds role by (simp add: ActiveRoleAssignment_def)
  fix ev assume "ev \<in> set (evs1 @ evs2)"
  then show "\<not> isCreate ev"
    using Subscriptions_no_schedule_fetch [of ev az] subs scheds
      roleEligibilitySchedules_no_create [of ev az "''subscriptions/'' @ sub"]
    by auto
qed

theorem ActiveRoleAssignment_nil_schedule_field_witness:
  "ActiveRoleAssignment exampleSession nilScheduleAzure ''Prod'' ''Reader'' ''on-call''
       (90 * Minute) =
     (Some DataIntegrityError,
      [SubscriptionsNextPage, SubscriptionsNextPage,
       LogPrintf ''WARNING: duplicate subscription ignored: Prod'',
       SchedulesNextPage ''subscriptions/sub-1''])"
proof -
  let ?re = "Some \<lparr>ID = None,
                    Properties = Some
                      \<lparr>ExpandedProperties = Some
                         \<lparr>RoleDefinition = Some \<lparr>RoleDisplayName = Some ''Reader''\<rparr>\<rparr>,
                       RoleDefinitionID = Some ''role-r''\<rparr>\<rparr>"
  have l2: "lookup (Some [(''Prod'', ''sub-1''), (''Dev'', ''sub-3'')]) ''Prod'' = Some ''sub-1''"
    by (simp add: lookup_def)
  have l3: "lookup (Some [(''Reader'', ?re)]) ''Reader'' = Some ?re"
    by (simp add: lookup_def)
  have m: "Option.bind ?re ID = None
        \<or> Option.bind (Option.bind ?re Properties) RoleDefinitionID = None
        \<or> Option.bind (Option.bind (Option.bind ?re Properties) ExpandedProperties) RoleDefinition
            = None"
    by simp
  have sch: "roleEligibilitySchedules nilScheduleAzure (''subscriptions/'' @ ''sub-1'') =
     ((Some [(''Reader'', ?re)], None), [SchedulesNextPage ''subscriptions/sub-1''])"
    using nilScheduleAzure_schedules by simp
  show ?thesis
    using ActiveRoleAssignment_nil_schedule_field [OF nilScheduleAzure_Subscriptions l2
        sch l3 m, THEN conjunct1]
    by simp
qed

section \<open>Rounding to \<open>float64\<close>: lemmas\<close>

declare natDigits.simps [simp del]

lemma roundHalfEven_le: "r \<le> of_int n \<Longrightarrow> roundHalfEven r \<le> n"
proof -
  assume r: "r \<le> of_int n"
  then have f: "\<lfloor>r\<rfloor> \<le> n" by (simp add: floor_le_iff)
  show ?thesis
  proof (cases "\<lfloor>r\<rfloor> = n")
    case True
    then have "of_int n \<le> r" by (metis of_int_floor_le)
    with r have "r = of_int n" by simp
    then show ?thesis by (simp add: roundHalfEven_def)
  next
    case False
    with f have "\<lfloor>r\<rfloor> + 1 \<le> n" by simp
    then show ?thesis by (simp add: roundHalfEven_def Let_def)
  qed
qed

lemma roundHalfEven_ge: "of_int n \<le> r \<Longrightarrow> n \<le> roundHalfEven r"
proof -
  assume "of_int n \<le> r"
  then have "n \<le> \<lfloor>r\<rfloor>" by (simp add: le_floor_iff)
  then show ?thesis by (simp add: roundHalfEven_def Let_def)
qed

lemma roundHalfEven_below_half: "r < of_int n - 1 / 2 \<Longrightarrow> roundHalfEven r < n"
proof -
  assume r: "r < of_int n - 1 / 2"
  have "of_int \<lfloor>r\<rfloor> \<le> r" by simp
  with r have "(of_int \<lfloor>r\<rfloor> :: rat) < of_int n" by linarith
  then have f: "\<lfloor>r\<rfloor> \<le> n - 1" by simp
  show ?thesis
  proof (cases "\<lfloor>r\<rfloor> = n - 1")
    case True
    then have "r - of_int \<lfloor>r\<rfloor> < 1 / 2" using r by simp
    then show ?thesis using True by (simp add: roundHalfEven_def Let_def)
  next
    case False
    with f have "\<lfloor>r\<rfloor> + 1 < n" by simp
    then show ?thesis by (simp add: roundHalfEven_def Let_def)
  qed
qed

lemma roundHalfEven_above_half: "of_int n - 1 / 2 < r \<Longrightarrow> n \<le> roundHalfEven r"
proof -
  assume r: "of_int n - 1 / 2 < r"
  then have "of_int (n - 1) \<le> r" by simp
  then have f: "n - 1 \<le> \<lfloor>r\<rfloor>" by (simp only: le_floor_iff)
  show ?thesis
  proof (cases "\<lfloor>r\<rfloor> = n - 1")
    case True
    then have "1 / 2 < r - of_int \<lfloor>r\<rfloor>" using r by simp
    then show ?thesis using True by (simp add: roundHalfEven_def Let_def)
  next
    case False
    with f have "n \<le> \<lfloor>r\<rfloor>" by simp
    then show ?thesis by (simp add: roundHalfEven_def Let_def)
  qed
qed

lemma roundHalfEven_of_int [simp]: "roundHalfEven (of_int n) = n"
  by (simp add: roundHalfEven_def)

lemma roundHalfEven_minus: "roundHalfEven (- r) = - roundHalfEven r"
proof (cases "r = of_int \<lfloor>r\<rfloor>")
  case True
  then obtain n where "r = of_int n" ..
  then show ?thesis
    using roundHalfEven_of_int [of "- n"] by simp
next
  case False
  then have fl: "\<lfloor>- r\<rfloor> = - \<lfloor>r\<rfloor> - 1"
    by (metis ceiling_altdef ceiling_def add_diff_cancel_right' minus_diff_eq minus_add_distrib
        uminus_add_conv_diff)
  let ?f = "\<lfloor>r\<rfloor>"
  let ?d = "r - of_int ?f"
  have d': "- r - of_int \<lfloor>- r\<rfloor> = 1 - ?d" by (simp add: fl)
  consider "?d < 1 / 2" | "1 / 2 < ?d" | "?d = 1 / 2" by linarith
  then show ?thesis
  proof cases
    case 1
    then have "\<not> (1 - ?d < 1 / 2)" "1 / 2 < 1 - ?d" by linarith+
    then show ?thesis using 1 unfolding roundHalfEven_def Let_def d' by (simp add: fl)
  next
    case 2
    then have "1 - ?d < 1 / 2" "\<not> ?d < 1 / 2" by linarith+
    then show ?thesis using 2 unfolding roundHalfEven_def Let_def d' by (simp add: fl)
  next
    case 3
    then have "\<not> (1 - ?d < 1 / 2)" "\<not> (1 / 2 < 1 - ?d)" "\<not> ?d < 1 / 2" "\<not> 1 / 2 < ?d"
      by linarith+
    then show ?thesis unfolding roundHalfEven_def Let_def d' by (simp add: fl)
  qed
qed

lemma ilog2_bounds:
  assumes "0 < x"
  shows "2 powi ilog2 x \<le> x" and "x < 2 powi (ilog2 x + 1)"
proof -
  obtain p q where pq: "quotient_of x = (p, q)" by (cases "quotient_of x")
  have q: "0 < q" using pq by (rule quotient_of_denom_pos)
  have x: "x = of_int p / of_int q" using pq by (rule quotient_of_div)
  have p: "0 < p" using assms q x by (simp add: zero_less_divide_iff)
  define k where "k = bitlen p - bitlen q"
  have bp: "(2::rat) powi (bitlen p - 1) \<le> of_int p" "of_int p < (2::rat) powi bitlen p"
  proof -
    have "1 \<le> bitlen p" using p bitlen_eq_zero_iff [of p] bitlen_nonneg [of p] by linarith
    then have e: "(2::rat) powi (bitlen p - 1) = of_int (2 ^ nat (bitlen p - 1))"
      "(2::rat) powi bitlen p = of_int (2 ^ nat (bitlen p))"
      by (simp_all add: power_int_def)
    show "(2::rat) powi (bitlen p - 1) \<le> of_int p"
      unfolding e using bitlen_bounds [OF p] by (simp only: of_int_le_iff)
    show "of_int p < (2::rat) powi bitlen p"
      unfolding e using bitlen_bounds [OF p] by (simp only: of_int_less_iff)
  qed
  have bq: "(2::rat) powi (bitlen q - 1) \<le> of_int q" "of_int q < (2::rat) powi bitlen q"
  proof -
    have "1 \<le> bitlen q" using q bitlen_eq_zero_iff [of q] bitlen_nonneg [of q] by linarith
    then have e: "(2::rat) powi (bitlen q - 1) = of_int (2 ^ nat (bitlen q - 1))"
      "(2::rat) powi bitlen q = of_int (2 ^ nat (bitlen q))"
      by (simp_all add: power_int_def)
    show "(2::rat) powi (bitlen q - 1) \<le> of_int q"
      unfolding e using bitlen_bounds [OF q] by (simp only: of_int_le_iff)
    show "of_int q < (2::rat) powi bitlen q"
      unfolding e using bitlen_bounds [OF q] by (simp only: of_int_less_iff)
  qed
  have qpos: "(0::rat) < of_int q" using q by simp
  have lower: "2 powi (k - 1) \<le> x"
  proof -
    have "(2::rat) powi (k - 1) * of_int q \<le> 2 powi (k - 1) * 2 powi bitlen q"
      using bq(2) by (intro mult_left_mono) simp_all
    also have "\<dots> = 2 powi (bitlen p - 1)"
      by (simp add: k_def power_int_add [symmetric])
    also have "\<dots> \<le> of_int p" by (rule bp(1))
    finally show ?thesis using qpos by (simp add: x pos_le_divide_eq)
  qed
  have upper: "x < 2 powi (k + 1)"
  proof -
    have "of_int p < (2::rat) powi bitlen p" by (rule bp(2))
    also have "\<dots> = 2 powi (k + 1) * 2 powi (bitlen q - 1)"
      by (simp add: k_def power_int_add [symmetric])
    also have "\<dots> \<le> 2 powi (k + 1) * of_int q"
      using bq(1) by (intro mult_left_mono) simp_all
    finally show ?thesis using qpos by (simp add: x pos_divide_less_eq)
  qed
  have il: "ilog2 x = (if 2 powi k \<le> x then k else k - 1)"
    by (simp add: ilog2_def pq k_def Let_def)
  show "2 powi ilog2 x \<le> x"
    using lower by (simp add: il)
  show "x < 2 powi (ilog2 x + 1)"
    using upper by (auto simp: il not_le)
qed

lemma ilog2_less:
  assumes "0 < x" and "x < 2 ^ n"
  shows "ilog2 x < int n"
proof (rule ccontr)
  assume "\<not> ilog2 x < int n"
  then have "int n \<le> ilog2 x" by simp
  then have "(2::rat) powi int n \<le> 2 powi ilog2 x"
    by (intro power_int_increasing) simp_all
  also have "\<dots> \<le> x" using ilog2_bounds(1) [OF assms(1)] .
  finally show False using assms(2) by simp
qed

lemma ulp_pos: "0 < ulp x"
  by (simp add: ulp_def)

lemma ulp_minus [simp]: "ulp (- x) = ulp x"
  by (simp add: ulp_def)

lemma ulp_inverse_power:
  assumes "x \<noteq> 0" and "\<bar>x\<bar> < 2 ^ n" and "n \<le> 53"
  obtains k where "ulp x = 1 / 2 ^ k" and "53 \<le> k + n"
proof -
  have "0 < \<bar>x\<bar>" using assms(1) by simp
  from ilog2_less [OF this assms(2)] have e: "ilog2 \<bar>x\<bar> < int n" .
  define e' where "e' = max (ilog2 \<bar>x\<bar>) (- 1022)"
  have e': "e' \<le> int n - 1" using e by (simp add: e'_def)
  define k where "k = nat (52 - e')"
  have k: "int k = 52 - e'" using e' assms(3) by (simp add: k_def)
  have "ulp x = 2 powi (- int k)" by (simp add: ulp_def e'_def [symmetric] k)
  then have "ulp x = 1 / 2 ^ k" by (simp add: power_int_minus divide_simps)
  moreover have "53 \<le> k + n" using k e' by linarith
  ultimately show thesis by (rule that)
qed

lemma float64_grid_le:
  assumes "x \<noteq> 0" and "ulp x = 1 / 2 ^ k" and "x \<le> of_int N / 2 ^ k"
  shows "float64 x \<le> of_int N / 2 ^ k"
proof -
  have "x / ulp x \<le> of_int N"
    using assms(3) by (simp add: assms(2) pos_le_divide_eq)
  then have "roundHalfEven (x / ulp x) \<le> N" by (rule roundHalfEven_le)
  then have "(of_int (roundHalfEven (x / ulp x)) :: rat) \<le> of_int N" by simp
  then show ?thesis
    using assms(1) by (simp add: float64_def assms(2) divide_right_mono)
qed

lemma float64_grid_ge:
  assumes "x \<noteq> 0" and "ulp x = 1 / 2 ^ k" and "of_int N / 2 ^ k \<le> x"
  shows "of_int N / 2 ^ k \<le> float64 x"
proof -
  have "of_int N \<le> x / ulp x"
    using assms(3) by (simp add: assms(2) pos_divide_le_eq)
  then have "N \<le> roundHalfEven (x / ulp x)" by (rule roundHalfEven_ge)
  then have "(of_int N :: rat) \<le> of_int (roundHalfEven (x / ulp x))" by simp
  then show ?thesis
    using assms(1) by (simp add: float64_def assms(2) divide_right_mono)
qed

lemma float64_below_half:
  assumes "x \<noteq> 0" and "ulp x = 1 / 2 ^ k" and "x < (of_int N - 1 / 2) / 2 ^ k"
  shows "float64 x \<le> (of_int N - 1) / 2 ^ k"
proof -
  have "x / ulp x < of_int N - 1 / 2"
    using assms(3) by (simp add: assms(2) pos_less_divide_eq)
  then have "roundHalfEven (x / ulp x) < N" by (rule roundHalfEven_below_half)
  then have "roundHalfEven (x / ulp x) \<le> N - 1" by simp
  then have "(of_int (roundHalfEven (x / ulp x)) :: rat) \<le> of_int (N - 1)"
    by (simp only: of_int_le_iff)
  then show ?thesis
    using assms(1) by (simp add: float64_def assms(2) divide_right_mono)
qed

lemma float64_above_half:
  assumes "x \<noteq> 0" and "ulp x = 1 / 2 ^ k" and "(of_int N - 1 / 2) / 2 ^ k < x"
  shows "of_int N / 2 ^ k \<le> float64 x"
proof -
  have "of_int N - 1 / 2 < x / ulp x"
    using assms(3) by (simp add: assms(2) pos_divide_less_eq)
  then have "N \<le> roundHalfEven (x / ulp x)" by (rule roundHalfEven_above_half)
  then have "(of_int N :: rat) \<le> of_int (roundHalfEven (x / ulp x))" by simp
  then show ?thesis
    using assms(1) by (simp add: float64_def assms(2) divide_right_mono)
qed

lemma float64_minus: "float64 (- x) = - float64 x"
  by (simp add: float64_def roundHalfEven_minus)

lemma float64_of_int:
  assumes "\<bar>n\<bar> < 2 ^ 53"
  shows "float64 (of_int n) = of_int n"
proof (cases "n = 0")
  case True
  then show ?thesis by (simp add: float64_def)
next
  case False
  then have nz: "(of_int n :: rat) \<noteq> 0" by simp
  have "\<bar>of_int n :: rat\<bar> < 2 ^ 53"
    using assms by (metis of_int_abs of_int_less_iff of_int_numeral of_int_power)
  from ulp_inverse_power [OF nz this]
  obtain k where k: "ulp (of_int n :: rat) = 1 / 2 ^ k" by auto
  have g: "(of_int n :: rat) = of_int (n * 2 ^ k) / 2 ^ k" by simp
  have "float64 (of_int n) \<le> of_int (n * 2 ^ k) / 2 ^ k"
    by (rule float64_grid_le [OF nz k]) (simp only: g [symmetric] order_refl)
  moreover have "of_int (n * 2 ^ k) / 2 ^ k \<le> float64 (of_int n)"
    by (rule float64_grid_ge [OF nz k]) (simp only: g [symmetric] order_refl)
  ultimately have "float64 (of_int n) = of_int (n * 2 ^ k) / 2 ^ k"
    by (rule order_antisym)
  then show ?thesis by (simp only: g [symmetric])
qed

section \<open>The minutes of a duration: lemmas\<close>

lemma quo_rem_nonneg:
  assumes "0 \<le> d"
  shows "quo d Minute = d div Minute" and "rem d Minute = d mod Minute"
proof -
  show q: "quo d Minute = d div Minute"
    using assms by (cases "d = 0") (simp_all add: quo_def Minute_def)
  show "rem d Minute = d mod Minute"
    unfolding rem_def q by (simp add: minus_mult_div_eq_mod)
qed

lemma quo_rem_minus: "quo (- d) Minute = - quo d Minute" "rem (- d) Minute = - rem d Minute"
  by (simp_all add: quo_def rem_def Minute_def)

lemma float64_Minute: "float64 60000000000 = 60000000000"
  using float64_of_int [of 60000000000] by simp

text \<open>The fraction of a minute, divided in \<open>float64\<close>, stays 17 units of \<open>2 powi (- 40)\<close> below one.\<close>

lemma float64_fraction:
  assumes "0 \<le> nsec" and "nsec < 60000000000"
  shows "0 \<le> float64 (of_int nsec / 60000000000)"
    and "float64 (of_int nsec / 60000000000) \<le> 1 - 17 / 2 ^ 40"
proof -
  let ?q = "of_int nsec / 60000000000 :: rat"
  have q0: "0 \<le> ?q" using assms(1) by simp
  have "(of_int nsec :: rat) \<le> of_int 59999999999" using assms(2) by (simp only: of_int_le_iff)
  then have qb: "?q \<le> 59999999999 / 60000000000" by (simp add: divide_right_mono)
  have b: "(59999999999 / 60000000000 :: rat) \<le> 1 - 17 / 2 ^ 40" by simp
  have q1: "\<bar>?q\<bar> < 2 ^ 0" using q0 qb by simp
  have "0 \<le> float64 ?q \<and> float64 ?q \<le> 1 - 17 / 2 ^ 40"
  proof (cases "?q = 0")
    case True
    then show ?thesis by (simp add: float64_def)
  next
    case False
    from ulp_inverse_power [OF False q1]
    obtain k where k: "ulp ?q = 1 / 2 ^ k" and "53 \<le> k + 0" by auto
    then have k40: "40 \<le> k" by simp
    have "(0::rat) = of_int 0 / 2 ^ k" by simp
    then have lo: "0 \<le> float64 ?q"
      using float64_grid_ge [OF False k, of 0] q0 by simp
    have p: "(2::rat) ^ k = 2 ^ 40 * 2 ^ (k - 40)"
      using k40 by (metis le_add_diff_inverse power_add)
    have g: "(1 - 17 / 2 ^ 40 :: rat) = of_int ((2 ^ 40 - 17) * 2 ^ (k - 40)) / 2 ^ k"
      unfolding p by simp
    have "?q \<le> of_int ((2 ^ 40 - 17) * 2 ^ (k - 40)) / 2 ^ k"
      using qb b unfolding g [symmetric] by (rule order_trans)
    from float64_grid_le [OF False k this] have "float64 ?q \<le> 1 - 17 / 2 ^ 40"
      unfolding g [symmetric] .
    with lo show ?thesis ..
  qed
  then show "0 \<le> float64 ?q" and "float64 ?q \<le> 1 - 17 / 2 ^ 40" by simp_all
qed

text \<open>Adding such a fraction to a whole number below \<open>2 ^ 18\<close> does not reach the next one.\<close>

lemma float64_add_fraction:
  assumes m: "0 \<le> m" "m < 2 ^ 18"
    and f: "0 \<le> f" "f \<le> 1 - 17 / 2 ^ 40"
  shows "of_int m \<le> float64 (of_int m + f)" and "float64 (of_int m + f) < of_int m + 1"
proof -
  let ?x = "of_int m + f :: rat"
  have m0: "(0::rat) \<le> of_int m" using m(1) by simp
  have "of_int m + 1 \<le> (of_int (2 ^ 18) :: rat)"
    using m(2) by (metis of_int_1 of_int_add of_int_le_iff zless_imp_add1_zle)
  then have m18: "(of_int m :: rat) + 1 \<le> 2 ^ 18" by simp
  have "of_int m \<le> float64 ?x \<and> float64 ?x < of_int m + 1"
  proof (cases "?x = 0")
    case True
    then have "(of_int m :: rat) = 0" using m0 f(1) by linarith
    then show ?thesis using True by (simp add: float64_def)
  next
    case False
    have "\<bar>?x\<bar> < 2 ^ 18" using m0 m18 f by simp
    from ulp_inverse_power [OF False this]
    obtain k where k: "ulp ?x = 1 / 2 ^ k" and "53 \<le> k + 18" by auto
    then have k35: "35 \<le> k" by simp
    have pk: "(0::rat) < 2 ^ k" by simp
    have "(of_int m :: rat) = of_int (m * 2 ^ k) / 2 ^ k" by simp
    moreover have "of_int m \<le> ?x" using f(1) by simp
    ultimately have "of_int (m * 2 ^ k) / 2 ^ k \<le> ?x" by simp
    from float64_grid_ge [OF False k this] have lo: "of_int m \<le> float64 ?x" by simp
    have "(2::rat) ^ 36 \<le> 2 ^ (k + 1)"
      using k35 by (intro power_increasing) simp_all
    then have "1 / (2::rat) ^ (k + 1) \<le> 1 / 2 ^ 36"
      by (intro divide_left_mono) simp_all
    then have half: "1 / 2 / (2::rat) ^ k \<le> 1 / 2 ^ 36" by simp
    have "(17::rat) / 2 ^ 40 > 1 / 2 ^ 36" by simp
    with half f(2) have "?x < of_int m + 1 - 1 / 2 / 2 ^ k" by linarith
    also have "\<dots> = (of_int ((m + 1) * 2 ^ k) - 1 / 2) / 2 ^ k"
      by (simp add: field_simps)
    finally have "?x < (of_int ((m + 1) * 2 ^ k) - 1 / 2) / 2 ^ k" .
    from float64_below_half [OF False k this]
    have "float64 ?x \<le> (of_int ((m + 1) * 2 ^ k) - 1) / 2 ^ k" .
    also have "\<dots> = of_int m + 1 - 1 / 2 ^ k" by (simp add: field_simps)
    also have "\<dots> < of_int m + 1" by simp
    finally show ?thesis using lo by simp
  qed
  then show "of_int m \<le> float64 ?x" and "float64 ?x < of_int m + 1" by simp_all
qed

lemma truncate_Minutes_nonneg:
  assumes "0 \<le> d" and "d < 2 ^ 18 * Minute"
  shows "truncate (Minutes d) = d div Minute"
proof -
  define m where "m = d div 60000000000"
  define nsec where "nsec = d mod 60000000000"
  have m: "0 \<le> m" "m < 2 ^ 18"
    using assms by (simp_all add: m_def Minute_def pos_imp_zdiv_nonneg_iff div_less_iff_less_mult)
  have nsec: "0 \<le> nsec" "nsec < 60000000000" by (simp_all add: nsec_def)
  have "\<bar>m\<bar> < 2 ^ 53" using m by simp
  then have fm: "float64 (of_int m) = of_int m" by (rule float64_of_int)
  have "\<bar>nsec\<bar> < 2 ^ 53" using nsec by simp
  then have fn: "float64 (of_int nsec) = of_int nsec" by (rule float64_of_int)
  have q: "quo d Minute = m" "rem d Minute = nsec"
    using quo_rem_nonneg [OF assms(1)] by (simp_all add: m_def nsec_def Minute_def)
  have M: "Minutes d = float64 (of_int m + float64 (of_int nsec / 60000000000))"
    by (simp add: Minutes_def Let_def q fm fn float64_Minute)
  note fr = float64_fraction [OF nsec]
  note b = float64_add_fraction [OF m fr]
  have "0 \<le> Minutes d" using b(1) m(1) unfolding M by (simp add: order_trans [of 0 "of_int m"])
  moreover have "\<lfloor>Minutes d\<rfloor> = m"
    unfolding M using b by (simp add: floor_eq_iff)
  ultimately show ?thesis by (simp add: truncate_def m_def Minute_def)
qed

lemma Minutes_minus: "Minutes (- d) = - Minutes d"
proof -
  have "Minutes (- d) =
      float64 (- (float64 (of_int (quo d Minute))
                  + float64 (float64 (of_int (rem d Minute)) / float64 (60 * 1000000000))))"
    by (simp add: Minutes_def Let_def quo_rem_minus float64_minus)
  then show ?thesis
    by (simp only: float64_minus Minutes_def Let_def)
qed

lemma truncate_minus: "truncate (- x) = - truncate x"
  by (cases "x = 0") (auto simp: truncate_def ceiling_def)

lemma truncate_Minutes:
  assumes "\<bar>d\<bar> < 2 ^ 18 * Minute"
  shows "truncate (Minutes d) = quo d Minute"
proof (cases "0 \<le> d")
  case True
  then show ?thesis
    using assms truncate_Minutes_nonneg [of d] quo_rem_nonneg(1) [of d] by simp
next
  case False
  then have d: "0 \<le> - d" "- d < 2 ^ 18 * Minute" using assms by simp_all
  have "truncate (Minutes (- d)) = quo (- d) Minute"
    using truncate_Minutes_nonneg [OF d] quo_rem_nonneg(1) [OF d(1)] by simp
  then show ?thesis
    by (simp add: Minutes_minus truncate_minus quo_rem_minus)
qed

lemma truncate_quotient: "truncate (of_int d / of_int Minute) = quo d Minute"
proof -
  have nonneg: "truncate (of_int e / of_int Minute) = quo e Minute" if "0 \<le> e" for e
  proof -
    have "(0::rat) \<le> of_int e / of_int Minute"
      using that by (simp add: Minute_def)
    then show ?thesis
      using quo_rem_nonneg(1) [OF that]
      by (simp add: truncate_def floor_divide_of_int_eq)
  qed
  show ?thesis
  proof (cases "0 \<le> d")
    case True
    then show ?thesis by (rule nonneg)
  next
    case False
    then have "0 \<le> - d" by simp
    from nonneg [OF this] have "truncate (- (of_int d / of_int Minute)) = - quo d Minute"
      by (simp add: quo_rem_minus)
    then show ?thesis by (simp add: truncate_minus)
  qed
qed

lemma Minutes_262144_59:
  "Minutes 15728699999999999 = 262145"
  by code_simp

lemma formatInt_examples:
  "formatInt 90 = ''90''" "formatInt 1 = ''1''" "formatInt 0 = ''0''"
  "formatInt (- 1) = ''-1''" "formatInt (- 90) = ''-90''"
  "formatInt 262144 = ''262144''" "formatInt 262145 = ''262145''"
  by (simp_all add: formatInt_def natDigits.simps)

lemma truncate_examples:
  "truncate (of_int (90 * Minute) / of_int Minute) = 90"
  "truncate (of_int 90000000000 / of_int Minute) = 1"
  "truncate (of_int 0 / of_int Minute) = 0"
  "truncate (of_int (- 90000000000) / of_int Minute) = - 1"
  "truncate (of_int (- (90 * Minute)) / of_int Minute) = - 90"
  "truncate (of_int 15728699999999999 / of_int Minute) = 262144"
  "truncate 262145 = 262145"
  by code_simp+

section \<open>The serialized duration\<close>

text \<open>
  C3, as amended. For every duration of magnitude below \<open>2 ^ 18\<close> minutes (about 182
  days), positive, zero or negative, the expiration is serialized as \<open>PT\<close>, the decimal
  digits of the exact number of minutes with its fraction dropped toward zero, and \<open>M\<close>;
  no duration is rejected. So 90 minutes give \<open>PT90M\<close>, 1.5 minutes \<open>PT1M\<close>, zero
  \<open>PT0M\<close> and minus 1.5 minutes \<open>PT-1M\<close>.
\<close>

theorem expirationDuration_truncates:
  assumes "\<bar>d\<bar> < 2 ^ 18 * Minute"
  shows "expirationDuration d = ''PT'' @ formatInt (truncate (of_int d / of_int Minute)) @ ''M''"
  using truncate_Minutes [OF assms] by (simp add: expirationDuration_def truncate_quotient)

theorem expirationDuration_truncates_witness:
  "expirationDuration (90 * Minute) = ''PT90M''
   \<and> expirationDuration 90000000000 = ''PT1M''
   \<and> expirationDuration 0 = ''PT0M''
   \<and> expirationDuration (- 90000000000) = ''PT-1M''
   \<and> expirationDuration (- (90 * Minute)) = ''PT-90M''"
proof -
  have h: "\<bar>90 * Minute\<bar> < 2 ^ 18 * Minute" "\<bar>90000000000\<bar> < 2 ^ 18 * Minute"
    "\<bar>0\<bar> < 2 ^ 18 * Minute" "\<bar>- 90000000000\<bar> < 2 ^ 18 * Minute"
    "\<bar>- (90 * Minute)\<bar> < 2 ^ 18 * Minute"
    by (simp_all add: Minute_def)
  show ?thesis
    using h [THEN expirationDuration_truncates]
    by (simp only: truncate_examples formatInt_examples) simp
qed

text \<open>
  The claim as stated fails for long durations: \<open>Duration.Minutes\<close> adds the whole
  minutes and the fraction in \<open>float64\<close>, and for 262144 minutes and 59.999999999
  seconds the sum rounds to 262145 before the conversion to an integer drops the fraction.
\<close>

theorem expirationDuration_rounds_up_counterexample:
  "expirationDuration 15728699999999999 = ''PT262145M''
   \<and> ''PT'' @ formatInt (truncate (of_int 15728699999999999 / of_int Minute)) @ ''M''
       = ''PT262144M''"
  by (simp only: expirationDuration_def Minutes_262144_59 truncate_examples formatInt_examples)
     simp

end
